theory Spec2Isabelle
  imports Main "HOL-Library.Word" "HOL-Library.Multiset"
begin

section \<open>Data model\<close>

text \<open>Go's \<open>int64\<close>: a 64-bit word, compared as a two's complement number
  (\<open><s\<close>, \<open>\<le>s\<close>).\<close>

type_synonym int64 = "64 word"

text \<open>Errors. \<open>ErrNoCurrentVersion\<close> and \<open>ErrNoNextVersion\<close> are the two package
  variables of migrate.go; \<open>ErrSyntax\<close> and \<open>ErrRange\<close> are the two causes a
  \<open>strconv.NumError\<close> carries; \<open>New msg\<close> is \<open>errors.New(msg)\<close>;
  \<open>Errorf format args\<close> and \<open>Wrapf cause format args\<close> keep the format string and its
  arguments apart (\<open>errors.Wrap(err, msg)\<close> is \<open>Wrapf err msg []\<close>); \<open>External\<close> is
  an error of the database driver or of the SQL runner.\<close>

datatype error =
    ErrNoCurrentVersion
  | ErrNoNextVersion
  | ErrSyntax
  | ErrRange
  | New string
  | Errorf string "string list"
  | Wrapf error string "string list"
  | External string

text \<open>The values \<open>panic\<close> is called with: the duplicate detected by \<open>Less\<close>, the
  conflict detected at registration, and the runtime's index and nil pointer errors.\<close>

datatype panic =
    DuplicateVersion int64 string string
  | VersionConflict string string
  | IndexOutOfRange nat nat
  | NilDereference

text \<open>A registered Go function \<open>func(*sql.Tx) error\<close>, abstracted to the result of
  calling it inside a transaction.\<close>

datatype go_fn = GoFn (fn_result: "error option")

record Migration =
  Version :: int64
  Next :: int64
  Previous :: int64
  Source :: string
  Registered :: bool
  Applied :: bool
  UpFn :: "go_fn option"
  DownFn :: "go_fn option"

record MigrationRecord =
  ID :: int64
  VersionID :: int64
  TStamp :: nat
  IsApplied :: bool

text \<open>\<open>Migrations\<close> is a slice of pointers: a list of addresses into a store of
  migration objects. Two slices holding the same address share the object.\<close>

type_synonym ptr = nat
type_synonym heap = "ptr \<Rightarrow> Migration"
type_synonym Migrations = "ptr list"

section \<open>Go standard library functions used by the version extractor\<close>

text \<open>\<open>filepath.Base\<close> (Unix separators): the last element of the path, trailing
  slashes removed first; \<open>"."\<close> for the empty path and \<open>"/"\<close> for a path of slashes
  only.\<close>

definition Base :: "string \<Rightarrow> string" where
  "Base path =
     (if path = [] then ''.''
      else let p = rev (dropWhile (\<lambda>c. c = CHR ''/'') (rev path));
               e = rev (takeWhile (\<lambda>c. c \<noteq> CHR ''/'') (rev p))
           in if e = [] then ''/'' else e)"

text \<open>\<open>filepath.Ext\<close>: the suffix beginning at the final dot of the final element of
  the path, empty when that element has no dot.\<close>

definition Ext :: "string \<Rightarrow> string" where
  "Ext path =
     (let seg = takeWhile (\<lambda>c. c \<noteq> CHR ''/'') (rev path)
      in if CHR ''.'' \<in> set seg
         then CHR ''.'' # rev (takeWhile (\<lambda>c. c \<noteq> CHR ''.'') seg)
         else [])"

text \<open>\<open>strings.Index(s, "_")\<close> for a one-byte separator: the index of its first
  occurrence, or \<open>-1\<close>.\<close>

definition Index :: "string \<Rightarrow> char \<Rightarrow> int" where
  "Index s sep =
     (if sep \<in> set s then int (length (takeWhile (\<lambda>c. c \<noteq> sep) s)) else - 1)"

definition is_digit :: "char \<Rightarrow> bool" where
  "is_digit c = (48 \<le> (of_char c :: int) \<and> (of_char c :: int) \<le> 57)"

definition digit :: "char \<Rightarrow> int" where
  "digit c = of_char c - 48"

definition maxUint64 :: int where
  "maxUint64 = 18446744073709551615"

text \<open>The loop of \<open>strconv.ParseUint(s, 10, 64)\<close>. The accumulator is a \<open>uint64\<close>,
  modelled as an integer with the wrap-around modulo \<open>2 ^ 64\<close> of the multiplication
  and of the addition written out; the library detects the overflow of the addition by
  \<open>n1 < n\<close>. A byte that is not a decimal digit is a syntax error (a letter is a digit
  value of at least 10, refused in base 10).\<close>

fun ParseUint_loop :: "int \<Rightarrow> string \<Rightarrow> int \<times> error option" where
  "ParseUint_loop n [] = (n, None)"
| "ParseUint_loop n (c # cs) =
     (if \<not> is_digit c then (0, Some ErrSyntax)
      else if n \<ge> maxUint64 div 10 + 1 then (maxUint64, Some ErrRange)
      else let n' = (n * 10) mod 2 ^ 64;
               n1 = (n' + digit c) mod 2 ^ 64
           in if n1 < n' \<or> n1 > maxUint64 then (maxUint64, Some ErrRange)
              else ParseUint_loop n1 cs)"

definition ParseUint :: "string \<Rightarrow> int \<times> error option" where
  "ParseUint s = (if s = [] then (0, Some ErrSyntax) else ParseUint_loop 0 s)"

text \<open>\<open>strconv.ParseInt(s, 10, 64)\<close>: an optional sign, then \<open>ParseUint\<close>; a value out
  of range is reported with \<open>ErrRange\<close> together with the largest value of that sign.\<close>

definition ParseInt :: "string \<Rightarrow> int64 \<times> error option" where
  "ParseInt s =
     (if s = [] then (0, Some ErrSyntax)
      else let neg = (hd s = CHR ''-'');
               s' = (if hd s = CHR ''+'' \<or> hd s = CHR ''-'' then tl s else s);
               (un, err) = ParseUint s'
           in if err \<noteq> None \<and> err \<noteq> Some ErrRange then (0, err)
              else if \<not> neg \<and> un \<ge> 2 ^ 63 then (9223372036854775807, Some ErrRange)
              else if neg \<and> un > 2 ^ 63 then (- 9223372036854775808, Some ErrRange)
              else (if neg then - (word_of_int un) else word_of_int un, None))"

section \<open>Version extractor (NumericComponent)\<close>

definition NumericComponent :: "string \<Rightarrow> int64 \<times> error option" where
  "NumericComponent name =
     (let base = Base name; ext = Ext base
      in if ext \<noteq> ''.go'' \<and> ext \<noteq> ''.sql''
         then (0, Some (New ''not a recognized migration file type''))
         else let idx = Index base (CHR ''_'')
              in if idx < 0 then (0, Some (New ''no separator found''))
                 else let (n, e) = ParseInt (take (nat idx) base)
                      in if e = None \<and> n \<le>s 0
                         then (0, Some (New ''migration IDs must be greater than zero''))
                         else (n, e))"

section \<open>Registry of Go migrations (AddNamedMigration)\<close>

text \<open>\<open>registeredGoMigrations\<close>, a map from version to migration, passed explicitly.\<close>

type_synonym registry = "int64 \<rightharpoonup> Migration"

definition AddNamedMigration ::
    "string \<Rightarrow> go_fn option \<Rightarrow> go_fn option \<Rightarrow> registry \<Rightarrow> panic + registry" where
  "AddNamedMigration filename up down reg =
     (let v = fst (NumericComponent filename);
          migration = \<lparr>Version = v, Next = - 1, Previous = - 1, Source = filename,
                       Registered = True, Applied = False, UpFn = up, DownFn = down\<rparr>
      in case reg v of
           Some existing \<Rightarrow> Inl (VersionConflict filename (Source existing))
         | None \<Rightarrow> Inr (reg(v \<mapsto> migration)))"

section \<open>Filtering predicates (migrate.go)\<close>

text \<open>\<open>versionFilter(v, current, target)\<close>: the Go comparisons \<open>a > b\<close> are written
  \<open>b <s a\<close>.\<close>

definition versionFilter :: "int64 \<Rightarrow> int64 \<Rightarrow> int64 \<Rightarrow> bool" where
  "versionFilter v current target =
     (if current <s target then current <s v \<and> v \<le>s target
      else if target <s current then v \<le>s current \<and> target <s v
      else False)"

definition unappliedVersionFilter :: "int64 \<Rightarrow> int64 \<Rightarrow> int64 \<Rightarrow> bool \<Rightarrow> bool" where
  "unappliedVersionFilter v current target applied =
     (if \<not> applied then True
      else if current <s target then current <s v \<and> v \<le>s target
      else False)"

section \<open>Sequencer (migrate.go)\<close>

text \<open>The three methods \<open>sort.Sort\<close> calls. \<open>Less\<close> panics on equal versions.\<close>

definition Migrations_Len :: "Migrations \<Rightarrow> nat" where
  "Migrations_Len ms = length ms"

definition Migrations_Swap :: "Migrations \<Rightarrow> nat \<Rightarrow> nat \<Rightarrow> Migrations" where
  "Migrations_Swap ms i j = ms[i := ms ! j, j := ms ! i]"

definition Migrations_Less :: "heap \<Rightarrow> Migrations \<Rightarrow> nat \<Rightarrow> nat \<Rightarrow> panic + bool" where
  "Migrations_Less h ms i j =
     (if Version (h (ms ! i)) = Version (h (ms ! j))
      then Inl (DuplicateVersion (Version (h (ms ! i))) (Source (h (ms ! i))) (Source (h (ms ! j))))
      else Inr (Version (h (ms ! i)) <s Version (h (ms ! j))))"

text \<open>\<open>sort.Sort\<close> is library code. It is modelled by the insertion sort the library
  runs on a slice of at most 12 elements:
  \<^verbatim>\<open>for i := a + 1; i < b; i++ { for j := i; j > a && data.Less(j, j-1); j-- { data.Swap(j, j-1) } }\<close>
  with a panic of \<open>Less\<close> ending the sort. \<open>insertion_inner h ms j\<close> is the inner loop
  started at \<open>j\<close>.\<close>

fun insertion_inner :: "heap \<Rightarrow> Migrations \<Rightarrow> nat \<Rightarrow> panic + Migrations" where
  "insertion_inner h ms 0 = Inr ms"
| "insertion_inner h ms (Suc j) =
     (case Migrations_Less h ms (Suc j) j of
        Inl p \<Rightarrow> Inl p
      | Inr b \<Rightarrow> if b then insertion_inner h (Migrations_Swap ms (Suc j) j) j else Inr ms)"

definition insertion_step :: "heap \<Rightarrow> panic + Migrations \<Rightarrow> nat \<Rightarrow> panic + Migrations" where
  "insertion_step h acc i = (case acc of Inl p \<Rightarrow> Inl p | Inr ms \<Rightarrow> insertion_inner h ms i)"

definition sort_Sort :: "heap \<Rightarrow> Migrations \<Rightarrow> panic + Migrations" where
  "sort_Sort h ms = foldl (insertion_step h) (Inr ms) [1 ..< Migrations_Len ms]"

text \<open>\<open>applied[v]\<close> on a \<open>map[int64]bool\<close>: a missing key reads as \<open>false\<close>.\<close>

definition applied_at :: "(int64 \<rightharpoonup> bool) \<Rightarrow> int64 \<Rightarrow> bool" where
  "applied_at applied v = (case applied v of None \<Rightarrow> False | Some b \<Rightarrow> b)"

text \<open>Simple ordering: the loop body of \<open>sortAndConnectMigrations\<close> at index \<open>i\<close>, with
  \<open>m = migrations[i]\<close>.\<close>

definition connect_step :: "Migrations \<Rightarrow> heap \<Rightarrow> nat \<Rightarrow> heap" where
  "connect_step migrations h i =
     (let m = migrations ! i in
      if i > 0
      then let prev = Version (h (migrations ! (i - 1)));
               h1 = h(migrations ! (i - 1) := (h (migrations ! (i - 1)))\<lparr>Next := Version (h m)\<rparr>)
           in h1(migrations ! i := (h1 (migrations ! i))\<lparr>Previous := prev\<rparr>)
      else h(migrations ! i := (h (migrations ! i))\<lparr>Previous := - 1\<rparr>))"

definition sortAndConnectMigrations :: "heap \<Rightarrow> Migrations \<Rightarrow> panic + (Migrations \<times> heap)" where
  "sortAndConnectMigrations h migrations =
     (case sort_Sort h migrations of
        Inl p \<Rightarrow> Inl p
      | Inr migrations \<Rightarrow>
          Inr (migrations, foldl (connect_step migrations) h [0 ..< length migrations]))"

text \<open>Reconciling ordering. The first loop of \<open>sortAndConnectAllMigrations\<close> appends each
  migration to \<open>am\<close> or to \<open>um\<close>.\<close>

fun split_applied ::
    "heap \<Rightarrow> (int64 \<rightharpoonup> bool) \<Rightarrow> Migrations \<Rightarrow> Migrations \<Rightarrow> Migrations \<Rightarrow> Migrations \<times> Migrations" where
  "split_applied h applied [] am um = (am, um)"
| "split_applied h applied (m # ms) am um =
     (if applied_at applied (Version (h m))
      then split_applied h applied ms (am @ [m]) um
      else split_applied h applied ms am (um @ [m]))"

text \<open>The body of the loop over \<open>am\<close> at index \<open>i\<close>, with \<open>m = am[i]\<close>: it reads and
  writes \<open>migrations[i - 1]\<close> and \<open>migrations[i]\<close>, as the source does.\<close>

definition connect_applied_step :: "Migrations \<Rightarrow> Migrations \<Rightarrow> heap \<Rightarrow> nat \<Rightarrow> heap" where
  "connect_applied_step migrations am h i =
     (let m = am ! i in
      if i > 0
      then let prev = Version (h (migrations ! (i - 1)));
               h1 = h(migrations ! (i - 1) := (h (migrations ! (i - 1)))\<lparr>Next := Version (h m)\<rparr>)
           in h1(migrations ! i := (h1 (migrations ! i))\<lparr>Previous := prev\<rparr>)
      else h(migrations ! i := (h (migrations ! i))\<lparr>Previous := - 1\<rparr>))"

text \<open>The body of the loop over \<open>um\<close> at index \<open>i\<close>, with \<open>m = um[i]\<close>.\<close>

definition connect_unapplied_step :: "Migrations \<Rightarrow> heap \<Rightarrow> nat \<Rightarrow> heap" where
  "connect_unapplied_step um h i =
     (let m = um ! i in
      if i > 0
      then let prev = Version (h (um ! (i - 1)));
               h1 = h(um ! (i - 1) := (h (um ! (i - 1)))\<lparr>Next := Version (h m)\<rparr>)
           in h1(um ! i := (h1 (um ! i))\<lparr>Previous := prev\<rparr>)
      else h(um ! i := (h (um ! i))\<lparr>Previous := - 1\<rparr>))"

text \<open>The splice after the two loops, taken when \<open>am\<close> and \<open>um\<close> are both non-empty.\<close>

definition splice :: "Migrations \<Rightarrow> Migrations \<Rightarrow> heap \<Rightarrow> heap" where
  "splice am um h =
     (let h1 = (if length um = 1 then h(um ! 0 := (h (um ! 0))\<lparr>Next := - 1\<rparr>) else h);
          h2 = h1(am ! (length am - 1) :=
                    (h1 (am ! (length am - 1)))\<lparr>Next := Version (h1 (um ! 0))\<rparr>)
      in h2(um ! 0 := (h2 (um ! 0))\<lparr>Previous := Version (h2 (am ! (length am - 1)))\<rparr>))"

definition sortAndConnectAllMigrations ::
    "heap \<Rightarrow> Migrations \<Rightarrow> (int64 \<rightharpoonup> bool) \<Rightarrow> panic + (Migrations \<times> heap)" where
  "sortAndConnectAllMigrations h migrations applied =
     (case sort_Sort h migrations of
        Inl p \<Rightarrow> Inl p
      | Inr migrations \<Rightarrow>
          let (am, um) = split_applied h applied migrations [] [];
              h1 = foldl (connect_applied_step migrations am) h [0 ..< length am];
              h2 = foldl (connect_unapplied_step um) h1 [0 ..< length um]
          in if length am = 0 then Inr (um, h2)
             else if length um \<noteq> 0 then Inr (am @ um, splice am um h2)
             else Inr (am @ um, h2))"

section \<open>Navigation (Migrations.Current, Migrations.Next)\<close>

text \<open>The results are Go's pairs \<open>(*Migration, error)\<close>.\<close>

fun Migrations_Current :: "heap \<Rightarrow> Migrations \<Rightarrow> int64 \<Rightarrow> ptr option \<times> error option" where
  "Migrations_Current h [] current = (None, Some ErrNoCurrentVersion)"
| "Migrations_Current h (m # ms) current =
     (if Version (h m) = current then (Some m, None) else Migrations_Current h ms current)"

definition Migrations_Next ::
    "heap \<Rightarrow> Migrations \<Rightarrow> int64 \<Rightarrow> panic + (ptr option \<times> error option)" where
  "Migrations_Next h ms current =
     (if current = 0
      then (case ms of [] \<Rightarrow> Inl (IndexOutOfRange 0 0) | m # _ \<Rightarrow> Inr (Some m, None))
      else case Migrations_Current h ms current of
             (_, Some err) \<Rightarrow> Inr (None, Some err)
           | (None, None) \<Rightarrow> Inl NilDereference
           | (Some cur, None) \<Rightarrow>
               if Next (h cur) = - 1 then Inr (None, Some ErrNoNextVersion)
               else case Migrations_Current h ms (Next (h cur)) of
                      (_, Some err) \<Rightarrow> Inr (None, Some err)
                    | (next, None) \<Rightarrow> Inr (next, None))"

section \<open>The database, as the engine sees it\<close>

text \<open>The statements the dialect produces, and the operations the engine issues. A
  function returns the operations it issued, in order, beside its result.\<close>

datatype stmt =
    createVersionTableSQL
  | insertVersionSQL int64 bool
  | deleteVersionSQL int64

datatype db_op =
    Begin
  | Call bool
  | Exec stmt
  | Commit
  | Rollback
  | RunSQL string int64 bool
  | LogOK string

text \<open>One row of the history query as \<open>rows.Scan\<close> delivers it.\<close>

datatype scan = ScanOk MigrationRecord | ScanErr error

text \<open>The collaborators' answers: the history query (an error, or the rows in the order
  the dialect returns them, with the error \<open>rows.Err()\<close> reports after the last row),
  \<open>db.Begin\<close>, \<open>tx.Exec\<close> by statement, \<open>tx.Commit\<close>, and the SQL script runner.\<close>

record db =
  dbVersionQuery :: "error + (scan list \<times> error option)"
  begin_result :: "error option"
  exec_result :: "stmt \<Rightarrow> error option"
  commit_result :: "error option"
  runSQLMigration :: "string \<Rightarrow> int64 \<Rightarrow> bool \<Rightarrow> error option"

section \<open>State reader (EnsureDBVersion)\<close>

definition createVersionTable :: "db \<Rightarrow> error option \<times> db_op list" where
  "createVersionTable d =
     (case begin_result d of
        Some err \<Rightarrow> (Some err, [])
      | None \<Rightarrow>
          (case exec_result d createVersionTableSQL of
             Some err \<Rightarrow> (Some err, [Begin, Exec createVersionTableSQL, Rollback])
           | None \<Rightarrow>
               (case exec_result d (insertVersionSQL 0 True) of
                  Some err \<Rightarrow>
                    (Some err, [Begin, Exec createVersionTableSQL,
                                Exec (insertVersionSQL 0 True), Rollback])
                | None \<Rightarrow>
                    (commit_result d, [Begin, Exec createVersionTableSQL,
                                       Exec (insertVersionSQL 0 True), Commit]))))"

text \<open>The loop over the rows of \<open>EnsureDBVersion\<close>, with the slice \<open>toSkip\<close>.\<close>

fun scan_rows :: "int64 list \<Rightarrow> scan list \<Rightarrow> error option \<Rightarrow> int64 \<times> error option" where
  "scan_rows toSkip [] rows_err =
     (case rows_err of
        Some err \<Rightarrow> (0, Some (Wrapf err ''failed to get next row'' []))
      | None \<Rightarrow> (0, Some ErrNoNextVersion))"
| "scan_rows toSkip (ScanErr err # rows) rows_err =
     (0, Some (Wrapf err ''failed to scan row'' []))"
| "scan_rows toSkip (ScanOk row # rows) rows_err =
     (if VersionID row \<in> set toSkip then scan_rows toSkip rows rows_err
      else if IsApplied row then (VersionID row, None)
      else scan_rows (toSkip @ [VersionID row]) rows rows_err)"

definition EnsureDBVersion :: "db \<Rightarrow> (int64 \<times> error option) \<times> db_op list" where
  "EnsureDBVersion d =
     (case dbVersionQuery d of
        Inl err \<Rightarrow> (let (e, ops) = createVersionTable d in ((0, e), ops))
      | Inr (rows, rows_err) \<Rightarrow> (scan_rows [] rows rows_err, []))"

definition GetDBVersion :: "db \<Rightarrow> (int64 \<times> error option) \<times> db_op list" where
  "GetDBVersion d =
     (case EnsureDBVersion d of
        ((version, Some err), ops) \<Rightarrow> ((- 1, Some err), ops)
      | ((version, None), ops) \<Rightarrow> ((version, None), ops))"

section \<open>Executing one migration (Migration.run, Up, Down)\<close>

definition run :: "db \<Rightarrow> Migration \<Rightarrow> bool \<Rightarrow> error option \<times> db_op list" where
  "run d m direction =
     (if Ext (Source m) = ''.sql'' then
        (case runSQLMigration d (Source m) (Version m) direction of
           Some err \<Rightarrow>
             (Some (Wrapf err ''failed to run SQL migration %q'' [Base (Source m)]),
              [RunSQL (Source m) (Version m) direction])
         | None \<Rightarrow> (None, [RunSQL (Source m) (Version m) direction]))
      else if Ext (Source m) = ''.go'' then
        (if \<not> Registered m then
           (Some (Errorf ''failed to run Go migration %q: Go functions must be registered and built into a custom binary (see https://github.com/lonja/goose/tree/master/examples/go-migrations)'' [Source m]), [])
         else case begin_result d of
           Some err \<Rightarrow> (Some (Wrapf err ''failed to begin transaction'' []), [])
         | None \<Rightarrow>
             let fn = (if \<not> direction then DownFn m else UpFn m);
                 called = (case fn of None \<Rightarrow> [] | Some f \<Rightarrow> [Call direction])
             in case (case fn of None \<Rightarrow> None | Some f \<Rightarrow> fn_result f) of
                  Some err \<Rightarrow>
                    (Some (Wrapf err ''failed to run Go migration %q'' [Base (Source m)]),
                     [Begin] @ called @ [Rollback])
                | None \<Rightarrow>
                    let write = (if direction then insertVersionSQL (Version m) direction
                                 else deleteVersionSQL (Version m))
                    in case exec_result d write of
                         Some err \<Rightarrow>
                           (Some (Wrapf err ''failed to execute transaction'' []),
                            [Begin] @ called @ [Exec write, Rollback])
                       | None \<Rightarrow>
                           (case commit_result d of
                              Some err \<Rightarrow>
                                (Some (Wrapf err ''failed to commit transaction'' []),
                                 [Begin] @ called @ [Exec write, Commit])
                            | None \<Rightarrow> (None, [Begin] @ called @ [Exec write, Commit])))
      else (None, []))"

definition Up :: "db \<Rightarrow> Migration \<Rightarrow> error option \<times> db_op list" where
  "Up d m =
     (case run d m True of
        (Some err, ops) \<Rightarrow> (Some err, ops)
      | (None, ops) \<Rightarrow> (None, ops @ [LogOK (Base (Source m))]))"

definition Down :: "db \<Rightarrow> Migration \<Rightarrow> error option \<times> db_op list" where
  "Down d m =
     (case run d m False of
        (Some err, ops) \<Rightarrow> (Some err, ops)
      | (None, ops) \<Rightarrow> (None, ops @ [LogOK (Base (Source m))]))"

section \<open>Example inputs\<close>

definition ex_migration :: "int64 \<Rightarrow> int64 \<Rightarrow> int64 \<Rightarrow> string \<Rightarrow> Migration" where
  "ex_migration v p n src =
     \<lparr>Version = v, Next = n, Previous = p, Source = src, Registered = False,
      Applied = False, UpFn = None, DownFn = None\<rparr>"

text \<open>A store whose object at address \<open>p\<close> is a freshly collected script migration of
  version \<open>p + 1\<close>.\<close>

definition ex_heap :: heap where
  "ex_heap = (\<lambda>p. ex_migration (word_of_nat p + 1) (- 1) (- 1) ''m.sql'')"

text \<open>A database on which every operation succeeds and whose history is empty.\<close>

definition ex_db :: db where
  "ex_db = \<lparr>dbVersionQuery = Inr ([], None), begin_result = None,
            exec_result = (\<lambda>s. None), commit_result = None,
            runSQLMigration = (\<lambda>src v dir. None)\<rparr>"

text \<open>A history in which version 1 was applied (row 1) and then rolled back (row 2), in
  the descending order of row identifiers the query returns.\<close>

definition ex_rolled_back :: "scan list" where
  "ex_rolled_back =
     [ScanOk \<lparr>ID = 2, VersionID = 1, TStamp = 20, IsApplied = False\<rparr>,
      ScanOk \<lparr>ID = 1, VersionID = 1, TStamp = 10, IsApplied = True\<rparr>]"

text \<open>A registered Go migration of version 1 whose two functions succeed.\<close>

definition ex_go_migration :: Migration where
  "ex_go_migration =
     \<lparr>Version = 1, Next = - 1, Previous = - 1, Source = ''migrations/00001_add.go'',
      Registered = True, Applied = False,
      UpFn = Some (GoFn None), DownFn = Some (GoFn None)\<rparr>"

text \<open>A store in which the objects at addresses 0 and 1 are two script files sharing
  version 1.\<close>

definition ex_dup_heap :: heap where
  "ex_dup_heap = ex_heap(0 := ex_migration 1 (- 1) (- 1) ''db/0001_a.sql'',
                         1 := ex_migration 1 (- 1) (- 1) ''db/0001_b.sql'')"

section \<open>Notions used to state the properties\<close>

text \<open>The function \<open>run\<close> selects for a direction, and the history statement it issues.\<close>

definition chosen_fn :: "Migration \<Rightarrow> bool \<Rightarrow> go_fn option" where
  "chosen_fn m direction = (if direction then UpFn m else DownFn m)"

definition history_write :: "Migration \<Rightarrow> bool \<Rightarrow> stmt" where
  "history_write m direction =
     (if direction then insertVersionSQL (Version m) True else deleteVersionSQL (Version m))"

definition call_ops :: "Migration \<Rightarrow> bool \<Rightarrow> db_op list" where
  "call_ops m direction = (case chosen_fn m direction of None \<Rightarrow> [] | Some f \<Rightarrow> [Call direction])"

definition fn_outcome :: "Migration \<Rightarrow> bool \<Rightarrow> error option" where
  "fn_outcome m direction = (case chosen_fn m direction of None \<Rightarrow> None | Some f \<Rightarrow> fn_result f)"

text \<open>An error identifies a migration source when the source path or its base name is
  among the arguments of one of its messages.\<close>

fun names_source :: "error \<Rightarrow> string \<Rightarrow> bool" where
  "names_source (Wrapf cause format args) src =
     (src \<in> set args \<or> Base src \<in> set args \<or> names_source cause src)"
| "names_source (Errorf format args) src = (src \<in> set args \<or> Base src \<in> set args)"
| "names_source ErrNoCurrentVersion src = False"
| "names_source ErrNoNextVersion src = False"
| "names_source ErrSyntax src = False"
| "names_source ErrRange src = False"
| "names_source (New msg) src = False"
| "names_source (External msg) src = False"

text \<open>The leading digit run of a name, the number a digit string denotes, and the
  integer a signed decimal literal denotes when it fits 64 bits.\<close>

definition digit_run :: "string \<Rightarrow> string" where
  "digit_run s = takeWhile is_digit s"

definition dec_value :: "string \<Rightarrow> int" where
  "dec_value ds = foldl (\<lambda>a c. a * 10 + digit c) 0 ds"

definition int64_literal :: "string \<Rightarrow> int option" where
  "int64_literal s =
     (let neg = (s \<noteq> [] \<and> hd s = CHR ''-'');
          ds = (if s \<noteq> [] \<and> (hd s = CHR ''+'' \<or> hd s = CHR ''-'') then tl s else s);
          v = (if neg then - dec_value ds else dec_value ds)
      in if ds \<noteq> [] \<and> list_all is_digit ds \<and> - (2 ^ 63) \<le> v \<and> v < 2 ^ 63
         then Some v else None)"

section \<open>Properties of the filtering predicates\<close>

text \<open>C3. For all signed 64-bit \<open>v\<close>, \<open>current\<close>, \<open>target\<close>: \<open>versionFilter\<close> is true
  exactly when either \<open>target > current\<close> and \<open>current < v \<le> target\<close>, or
  \<open>target < current\<close> and \<open>target < v \<le> current\<close>; with equal bounds it is false for
  every \<open>v\<close>.\<close>

theorem versionFilter_intervals:
  "(versionFilter v current target \<longleftrightarrow>
      (current <s target \<and> current <s v \<and> v \<le>s target) \<or>
      (target <s current \<and> target <s v \<and> v \<le>s current))
   \<and> versionFilter v current current = False"
  by (auto simp: versionFilter_def)

text \<open>C6. \<open>unappliedVersionFilter\<close> is true for every unapplied version whatever the
  bounds; for an applied version it is true exactly when \<open>target > current\<close> and
  \<open>current < v \<le> target\<close>, hence false whenever \<open>target \<le> current\<close>.\<close>

theorem unappliedVersionFilter_cases:
  "unappliedVersionFilter v current target False
   \<and> (unappliedVersionFilter v current target True \<longleftrightarrow>
        current <s target \<and> current <s v \<and> v \<le>s target)
   \<and> (target \<le>s current \<longrightarrow> \<not> unappliedVersionFilter v current target True)"
  by (auto simp: unappliedVersionFilter_def)

theorem unappliedVersionFilter_cases_witness:
  "(3 :: int64) \<le>s 5 \<and> unappliedVersionFilter 4 5 3 False
   \<and> \<not> unappliedVersionFilter 4 5 3 True \<and> unappliedVersionFilter 4 3 5 True"
proof -
  have h: "(3 :: int64) \<le>s 5" by simp
  have b: "(3 :: int64) <s 5 \<and> (3 :: int64) <s 4 \<and> (4 :: int64) \<le>s 5" by simp
  from unappliedVersionFilter_cases [of 4 5 3] h
  have 1: "unappliedVersionFilter 4 5 3 False \<and> \<not> unappliedVersionFilter 4 5 3 True" by blast
  from unappliedVersionFilter_cases [of 4 3 5] b
  have 2: "unappliedVersionFilter 4 3 5 True" by blast
  from h 1 2 show ?thesis by blast
qed

section \<open>Properties of navigation\<close>

lemma Migrations_Current_absent:
  "current \<notin> (\<lambda>p. Version (h p)) ` set ms \<Longrightarrow>
   Migrations_Current h ms current = (None, Some ErrNoCurrentVersion)"
  by (induction ms) auto

text \<open>C8. \<open>Migrations.Next(0)\<close> returns element 0 of a non-empty sequence whatever the
  store holds (so whatever that element's \<open>Previous\<close> is), and panics with an index
  out of range on the empty sequence; for \<open>current \<noteq> 0\<close> that is no element's version
  it returns \<open>ErrNoCurrentVersion\<close>.\<close>

theorem Migrations_Next_zero_and_absent:
  "(ms \<noteq> [] \<longrightarrow> Migrations_Next h ms 0 = Inr (Some (ms ! 0), None))
   \<and> Migrations_Next h [] 0 = Inl (IndexOutOfRange 0 0)
   \<and> (current \<noteq> 0 \<and> current \<notin> (\<lambda>p. Version (h p)) ` set ms \<longrightarrow>
        Migrations_Next h ms current = Inr (None, Some ErrNoCurrentVersion))"
  by (cases ms) (auto simp: Migrations_Next_def Migrations_Current_absent)

theorem Migrations_Next_zero_and_absent_witness:
  "Migrations_Next (ex_heap(1 := ex_migration 2 7 (- 1) ''m.sql'')) [1, 0] 0 = Inr (Some 1, None)
   \<and> Migrations_Next ex_heap [0, 1] 5 = Inr (None, Some ErrNoCurrentVersion)"
proof -
  have a: "[1, 0 :: nat] \<noteq> []" by simp
  have b: "(5 :: int64) \<noteq> 0 \<and> 5 \<notin> (\<lambda>p. Version (ex_heap p)) ` set [0, 1]"
    by (simp add: ex_heap_def ex_migration_def)
  from Migrations_Next_zero_and_absent [of "[1, 0]" "ex_heap(1 := ex_migration 2 7 (- 1) ''m.sql'')"] a
  have 1: "Migrations_Next (ex_heap(1 := ex_migration 2 7 (- 1) ''m.sql'')) [1, 0] 0
           = Inr (Some ([1, 0] ! 0), None)"
    by blast
  from Migrations_Next_zero_and_absent [of "[0, 1]" ex_heap 5] b
  have 2: "Migrations_Next ex_heap [0, 1] 5 = Inr (None, Some ErrNoCurrentVersion)"
    by blast
  from 1 2 show ?thesis by simp
qed

section \<open>Properties of executing one migration\<close>

text \<open>C9. A migration whose source has an extension other than \<open>.sql\<close> and \<open>.go\<close>
  runs nothing: \<open>run\<close> returns \<open>nil\<close> and issues no operation, and \<open>Up\<close> and \<open>Down\<close>
  return \<open>nil\<close> after logging the base name only.\<close>

theorem run_unrecognized_kind:
  "Ext (Source m) \<noteq> ''.sql'' \<and> Ext (Source m) \<noteq> ''.go'' \<longrightarrow>
     run d m direction = (None, [])
     \<and> Up d m = (None, [LogOK (Base (Source m))])
     \<and> Down d m = (None, [LogOK (Base (Source m))])"
  by (simp add: run_def Up_def Down_def)

theorem run_unrecognized_kind_witness:
  "Ext ''db/00007_notes.txt'' = ''.txt''
   \<and> run ex_db (ex_migration 7 (- 1) (- 1) ''db/00007_notes.txt'') True = (None, [])
   \<and> Up ex_db (ex_migration 7 (- 1) (- 1) ''db/00007_notes.txt'') = (None, [LogOK ''00007_notes.txt''])
   \<and> Down ex_db (ex_migration 7 (- 1) (- 1) ''db/00007_notes.txt'') = (None, [LogOK ''00007_notes.txt''])"
proof -
  have e: "Ext ''db/00007_notes.txt'' = ''.txt''" by code_simp
  have b: "Base ''db/00007_notes.txt'' = ''00007_notes.txt''" by code_simp
  have s: "Source (ex_migration 7 (- 1) (- 1) ''db/00007_notes.txt'') = ''db/00007_notes.txt''"
    by (simp add: ex_migration_def)
  have h: "Ext (Source (ex_migration 7 (- 1) (- 1) ''db/00007_notes.txt'')) \<noteq> ''.sql'' \<and>
           Ext (Source (ex_migration 7 (- 1) (- 1) ''db/00007_notes.txt'')) \<noteq> ''.go''"
    by (simp add: s e)
  from run_unrecognized_kind [of "ex_migration 7 (- 1) (- 1) ''db/00007_notes.txt''" ex_db True] h
  show ?thesis by (simp add: s e b)
qed

lemma run_go_cases:
  assumes "Ext (Source m) = ''.go''" "Registered m" "begin_result d = None"
  shows "run d m direction =
     (case fn_outcome m direction of
        Some err \<Rightarrow> (Some (Wrapf err ''failed to run Go migration %q'' [Base (Source m)]),
                     [Begin] @ call_ops m direction @ [Rollback])
      | None \<Rightarrow>
         (case exec_result d (history_write m direction) of
            Some err \<Rightarrow> (Some (Wrapf err ''failed to execute transaction'' []),
                         [Begin] @ call_ops m direction @ [Exec (history_write m direction), Rollback])
          | None \<Rightarrow>
             (case commit_result d of
                Some err \<Rightarrow> (Some (Wrapf err ''failed to commit transaction'' []),
                             [Begin] @ call_ops m direction @ [Exec (history_write m direction), Commit])
              | None \<Rightarrow> (None, [Begin] @ call_ops m direction @ [Exec (history_write m direction), Commit]))))"
  using assms
  by (cases direction)
     (auto simp: run_def fn_outcome_def call_ops_def chosen_fn_def history_write_def
           split: option.splits)

lemma ex_go_migration_facts:
  "Ext (Source ex_go_migration) = ''.go''" "Registered ex_go_migration"
  "Base (Source ex_go_migration) = ''00001_add.go''"
  "fn_outcome ex_go_migration True = None"
  "call_ops ex_go_migration True = [Call True]"
  "history_write ex_go_migration True = insertVersionSQL 1 True"
proof -
  have s: "Source ex_go_migration = ''migrations/00001_add.go''"
    by (simp add: ex_go_migration_def)
  have "Ext ''migrations/00001_add.go'' = ''.go''" by code_simp
  then show "Ext (Source ex_go_migration) = ''.go''" by (simp add: s)
  have "Base ''migrations/00001_add.go'' = ''00001_add.go''" by code_simp
  then show "Base (Source ex_go_migration) = ''00001_add.go''" by (simp add: s)
  show "Registered ex_go_migration" by (simp add: ex_go_migration_def)
  show "fn_outcome ex_go_migration True = None"
    by (simp add: fn_outcome_def chosen_fn_def ex_go_migration_def)
  show "call_ops ex_go_migration True = [Call True]"
    by (simp add: call_ops_def chosen_fn_def ex_go_migration_def)
  show "history_write ex_go_migration True = insertVersionSQL 1 True"
    by (simp add: history_write_def ex_go_migration_def)
qed

text \<open>C4, as stated, fails: when the history write fails the transaction is rolled back
  but the returned error wraps the cause with the fixed message
  \<open>failed to execute transaction\<close>, which does not identify the migration source; when
  the commit fails the error is \<open>failed to commit transaction\<close> and no rollback is
  issued.\<close>

theorem run_write_failure_counterexample:
  "run (ex_db\<lparr>exec_result := (\<lambda>s. Some (External ''connection lost''))\<rparr>) ex_go_migration True
     = (Some (Wrapf (External ''connection lost'') ''failed to execute transaction'' []),
        [Begin, Call True, Exec (insertVersionSQL 1 True), Rollback])
   \<and> \<not> names_source (Wrapf (External ''connection lost'') ''failed to execute transaction'' [])
         (Source ex_go_migration)
   \<and> run (ex_db\<lparr>commit_result := Some (External ''connection lost'')\<rparr>) ex_go_migration True
     = (Some (Wrapf (External ''connection lost'') ''failed to commit transaction'' []),
        [Begin, Call True, Exec (insertVersionSQL 1 True), Commit])"
proof -
  have 1: "begin_result (ex_db\<lparr>exec_result := (\<lambda>s. Some (External ''connection lost''))\<rparr>) = None"
          "begin_result (ex_db\<lparr>commit_result := Some (External ''connection lost'')\<rparr>) = None"
    by (simp_all add: ex_db_def)
  show ?thesis
    by (simp add: run_go_cases [OF ex_go_migration_facts(1,2)] 1 ex_go_migration_facts ex_db_def)
qed

text \<open>C4, amended. For a registered \<open>.go\<close> migration whose transaction opens, \<open>run\<close>
  opens exactly one transaction. The forward or backward function, when the migration has
  one, is called first. If it fails, the transaction is rolled back without any history
  write and the error wraps the cause with a message naming the base name of the source.
  Otherwise the history record is inserted (forward) or deleted (backward) in the same
  transaction: if that write fails, the transaction is rolled back and the error wraps the
  cause with the message \<open>failed to execute transaction\<close>; if the commit fails, the error
  wraps the cause with the message \<open>failed to commit transaction\<close> and no rollback is
  issued; otherwise \<open>run\<close> returns \<open>nil\<close> after the commit.\<close>

theorem run_registered_go:
  "Ext (Source m) = ''.go'' \<and> Registered m \<and> begin_result d = None \<longrightarrow>
     count_list (snd (run d m direction)) Begin = 1
     \<and> (\<forall>err. fn_outcome m direction = Some err \<longrightarrow>
          run d m direction =
            (Some (Wrapf err ''failed to run Go migration %q'' [Base (Source m)]),
             [Begin] @ call_ops m direction @ [Rollback])
          \<and> names_source (Wrapf err ''failed to run Go migration %q'' [Base (Source m)]) (Source m))
     \<and> (\<forall>err. fn_outcome m direction = None
              \<and> exec_result d (history_write m direction) = Some err \<longrightarrow>
          run d m direction =
            (Some (Wrapf err ''failed to execute transaction'' []),
             [Begin] @ call_ops m direction @ [Exec (history_write m direction), Rollback]))
     \<and> (\<forall>err. fn_outcome m direction = None
              \<and> exec_result d (history_write m direction) = None
              \<and> commit_result d = Some err \<longrightarrow>
          run d m direction =
            (Some (Wrapf err ''failed to commit transaction'' []),
             [Begin] @ call_ops m direction @ [Exec (history_write m direction), Commit]))
     \<and> (fn_outcome m direction = None
          \<and> exec_result d (history_write m direction) = None
          \<and> commit_result d = None \<longrightarrow>
          run d m direction =
            (None, [Begin] @ call_ops m direction @ [Exec (history_write m direction), Commit]))"
proof (intro impI, elim conjE)
  assume a: "Ext (Source m) = ''.go''" "Registered m" "begin_result d = None"
  have c: "count_list (call_ops m direction) Begin = 0"
    by (simp add: call_ops_def split: option.splits)
  show "count_list (snd (run d m direction)) Begin = 1
     \<and> (\<forall>err. fn_outcome m direction = Some err \<longrightarrow>
          run d m direction =
            (Some (Wrapf err ''failed to run Go migration %q'' [Base (Source m)]),
             [Begin] @ call_ops m direction @ [Rollback])
          \<and> names_source (Wrapf err ''failed to run Go migration %q'' [Base (Source m)]) (Source m))
     \<and> (\<forall>err. fn_outcome m direction = None
              \<and> exec_result d (history_write m direction) = Some err \<longrightarrow>
          run d m direction =
            (Some (Wrapf err ''failed to execute transaction'' []),
             [Begin] @ call_ops m direction @ [Exec (history_write m direction), Rollback]))
     \<and> (\<forall>err. fn_outcome m direction = None
              \<and> exec_result d (history_write m direction) = None
              \<and> commit_result d = Some err \<longrightarrow>
          run d m direction =
            (Some (Wrapf err ''failed to commit transaction'' []),
             [Begin] @ call_ops m direction @ [Exec (history_write m direction), Commit]))
     \<and> (fn_outcome m direction = None
          \<and> exec_result d (history_write m direction) = None
          \<and> commit_result d = None \<longrightarrow>
          run d m direction =
            (None, [Begin] @ call_ops m direction @ [Exec (history_write m direction), Commit]))"
    by (simp add: run_go_cases [OF a] c split: option.splits)
qed

theorem run_registered_go_witness:
  "run ex_db ex_go_migration True = (None, [Begin, Call True, Exec (insertVersionSQL 1 True), Commit])
   \<and> run ex_db (ex_go_migration\<lparr>UpFn := Some (GoFn (Some (External ''boom'')))\<rparr>) True
       = (Some (Wrapf (External ''boom'') ''failed to run Go migration %q'' [''00001_add.go'']),
          [Begin, Call True, Rollback])"
proof -
  let ?m = "ex_go_migration\<lparr>UpFn := Some (GoFn (Some (External ''boom'')))\<rparr>"
  have d: "begin_result ex_db = None" "commit_result ex_db = None"
          "exec_result ex_db (insertVersionSQL 1 True) = None"
    by (simp_all add: ex_db_def)
  have m: "Ext (Source ?m) = ''.go''" "Registered ?m" "Base (Source ?m) = ''00001_add.go''"
          "fn_outcome ?m True = Some (External ''boom'')" "call_ops ?m True = [Call True]"
    using ex_go_migration_facts(1,2,3)
    by (simp_all add: fn_outcome_def call_ops_def chosen_fn_def)
  from run_registered_go [of ex_go_migration ex_db True] ex_go_migration_facts d
  have 1: "run ex_db ex_go_migration True
           = (None, [Begin, Call True, Exec (insertVersionSQL 1 True), Commit])"
    by simp
  from run_registered_go [of ?m ex_db True] m d
  have 2: "run ex_db ?m True
           = (Some (Wrapf (External ''boom'') ''failed to run Go migration %q'' [''00001_add.go'']),
              [Begin, Call True, Rollback])"
    by simp
  from 1 2 show ?thesis by simp
qed

section \<open>Properties of the state reader\<close>

text \<open>The scan skips a record whose version was seen with applied-flag false, and
  answers with the first remaining record whose applied-flag is true.\<close>

lemma scan_rows_skip:
  "VersionID row \<in> set toSkip \<Longrightarrow>
   scan_rows toSkip (ScanOk row # rows) rows_err = scan_rows toSkip rows rows_err"
  by simp

lemma scan_rows_applied:
  "VersionID row \<notin> set toSkip \<Longrightarrow> IsApplied row \<Longrightarrow>
   scan_rows toSkip (ScanOk row # rows) rows_err = (VersionID row, None)"
  by simp

lemma scan_rows_exhausted:
  "\<forall>r \<in> set rows. \<exists>row. r = ScanOk row \<and> (IsApplied row \<longrightarrow> VersionID row \<in> set toSkip) \<Longrightarrow>
   scan_rows toSkip rows None = (0, Some ErrNoNextVersion)"
proof (induction rows arbitrary: toSkip)
  case Nil
  show ?case by simp
next
  case (Cons r rows)
  from Cons.prems obtain row where r: "r = ScanOk row"
    and a: "IsApplied row \<longrightarrow> VersionID row \<in> set toSkip" by auto
  have rest: "\<forall>r \<in> set rows. \<exists>row. r = ScanOk row \<and> (IsApplied row \<longrightarrow> VersionID row \<in> set toSkip)"
    using Cons.prems by simp
  show ?case
  proof (cases "VersionID row \<in> set toSkip")
    case True
    with r Cons.IH [OF rest] show ?thesis by simp
  next
    case False
    with a have na: "\<not> IsApplied row" by blast
    have "\<forall>r \<in> set rows. \<exists>row'. r = ScanOk row' \<and>
            (IsApplied row' \<longrightarrow> VersionID row' \<in> set (toSkip @ [VersionID row]))"
      using rest by auto
    from Cons.IH [OF this] r False na show ?thesis by simp
  qed
qed

text \<open>C2 at a history without applied record (the empty history, and a history whose
  only version was rolled back): the scan is exhausted and \<open>EnsureDBVersion\<close> returns
  \<open>ErrNoNextVersion\<close>, the signal that ends the apply loop, and not
  \<open>ErrNoCurrentVersion\<close>.\<close>

theorem EnsureDBVersion_no_applied_record:
  "EnsureDBVersion (ex_db\<lparr>dbVersionQuery := Inr ([], None)\<rparr>) = ((0, Some ErrNoNextVersion), [])
   \<and> EnsureDBVersion (ex_db\<lparr>dbVersionQuery := Inr (ex_rolled_back, None)\<rparr>)
       = ((0, Some ErrNoNextVersion), [])
   \<and> ErrNoNextVersion \<noteq> ErrNoCurrentVersion"
  by (simp add: EnsureDBVersion_def ex_db_def ex_rolled_back_def)

section \<open>Properties of the sequencer\<close>

text \<open>C1 at the versions 1, 2, 3 with 2 and 3 applied: the order is 2, 3, 1, but the
  first element (version 2) has \<open>Previous = 1\<close> and \<open>Next = -1\<close>, and version 3 has
  \<open>Previous = -1\<close>: the loop over the applied migrations wrote its links into the
  first elements of the sorted slice.\<close>

theorem sortAndConnectAllMigrations_interleaved:
  "case sortAndConnectAllMigrations ex_heap [0, 1, 2] [2 \<mapsto> True, 3 \<mapsto> True] of
     Inl p \<Rightarrow> False
   | Inr (ms, h) \<Rightarrow>
       ms = [1, 2, 0]
       \<and> map (\<lambda>p. Version (h p)) ms = [2, 3, 1]
       \<and> map (\<lambda>p. Previous (h p)) ms = [1, - 1, 3]
       \<and> map (\<lambda>p. Next (h p)) ms = [- 1, 1, - 1]"
  by code_simp

section \<open>Properties of sorting\<close>

lemma nth_mid:
  "(pre @ y # x # suf) ! length pre = y" "(pre @ y # x # suf) ! Suc (length pre) = x"
  by (simp_all add: nth_append)

lemma Migrations_Swap_adjacent:
  "Migrations_Swap (pre @ y # x # suf) (Suc (length pre)) (length pre) = pre @ x # y # suf"
  by (simp add: Migrations_Swap_def nth_mid list_update_append)

lemma sless_key: "a <s b \<longleftrightarrow> sint a < sint b"
  by (rule word_sless_alt)

lemma sint_key_eq: "sint (a :: int64) = sint b \<longleftrightarrow> a = b"
  by (auto intro: signed_word_eqI)

lemma sless_trichotomy: "(a :: int64) = b \<or> a <s b \<or> b <s a"
  by (metis sint_key_eq sless_key less_linear)

text \<open>One run of the inner loop on a sorted prefix \<open>pre\<close> followed by \<open>x\<close>: a panic when
  the version of \<open>x\<close> occurs in the prefix, and \<open>x\<close> moved to its place otherwise.\<close>

lemma insertion_inner_result:
  "sorted_wrt (\<lambda>a b. Version (h a) <s Version (h b)) pre \<Longrightarrow>
   (Version (h x) \<in> (\<lambda>p. Version (h p)) ` set pre
      \<and> (\<exists>s. insertion_inner h (pre @ x # suf) (length pre)
               = Inl (DuplicateVersion (Version (h x)) (Source (h x)) s)))
   \<or> (Version (h x) \<notin> (\<lambda>p. Version (h p)) ` set pre
      \<and> insertion_inner h (pre @ x # suf) (length pre)
          = Inr (filter (\<lambda>p. Version (h p) <s Version (h x)) pre @ x #
                 filter (\<lambda>p. Version (h x) <s Version (h p)) pre @ suf))"
proof (induction pre arbitrary: suf rule: rev_induct)
  case Nil
  show ?case by simp
next
  case (snoc y pre)
  let ?V = "\<lambda>p. Version (h p)"
  from snoc.prems have sp: "sorted_wrt (\<lambda>a b. ?V a <s ?V b) pre"
    and below: "\<forall>p \<in> set pre. ?V p <s ?V y"
    by (auto simp: sorted_wrt_append)
  have len: "length (pre @ [y]) = Suc (length pre)" by simp
  have shape: "(pre @ [y]) @ x # suf = pre @ y # x # suf" by simp
  consider (eq) "?V x = ?V y" | (lt) "?V x <s ?V y" | (gt) "?V y <s ?V x"
    using sless_trichotomy [of "?V x" "?V y"] by blast
  then show ?case
  proof cases
    case eq
    then show ?thesis
      unfolding len shape by (simp add: Migrations_Less_def nth_mid)
  next
    case lt
    then have ne: "?V x \<noteq> ?V y" by (auto simp: sless_key)
    have ngt: "\<not> ?V y <s ?V x" using lt by (auto simp: sless_key)
    have step: "insertion_inner h (pre @ y # x # suf) (Suc (length pre))
                = insertion_inner h (pre @ x # y # suf) (length pre)"
      using lt ne by (simp add: Migrations_Less_def nth_mid Migrations_Swap_adjacent)
    from snoc.IH [OF sp, of "y # suf"] show ?thesis
      unfolding len shape step using ne ngt by auto
  next
    case gt
    then have ne: "?V x \<noteq> ?V y" by (auto simp: sless_key)
    have nlt: "\<not> ?V x <s ?V y" using gt by (auto simp: sless_key)
    have all_lt: "\<forall>p \<in> set pre. ?V p <s ?V x"
      using below gt by (auto simp: sless_key)
    then have notin: "?V x \<notin> ?V ` set pre" by (auto simp: sless_key)
    have f1: "filter (\<lambda>p. ?V p <s ?V x) pre = pre" using all_lt by simp
    have f2: "filter (\<lambda>p. ?V x <s ?V p) pre = []"
      using all_lt by (auto simp: filter_empty_conv sless_key)
    have step: "insertion_inner h (pre @ y # x # suf) (Suc (length pre)) = Inr (pre @ y # x # suf)"
      using nlt ne by (simp add: Migrations_Less_def nth_mid)
    show ?thesis
      unfolding len shape step using ne notin gt nlt by (simp add: f1 f2)
  qed
qed

lemma sorted_wrt_insert_between:
  assumes "sorted_wrt (\<lambda>a b. Version (h a) <s Version (h b)) pre"
  shows "sorted_wrt (\<lambda>a b. Version (h a) <s Version (h b))
           (filter (\<lambda>p. Version (h p) <s Version (h x)) pre @ x #
            filter (\<lambda>p. Version (h x) <s Version (h p)) pre)"
  using assms by (auto simp: sorted_wrt_append sless_key intro: sorted_wrt_filter)

lemma mset_insert_between:
  assumes "Version (h x) \<notin> (\<lambda>p. Version (h p)) ` set pre"
  shows "mset (filter (\<lambda>p. Version (h p) <s Version (h x)) pre @ x #
               filter (\<lambda>p. Version (h x) <s Version (h p)) pre) = add_mset x (mset pre)"
proof -
  have "filter (\<lambda>p. Version (h x) <s Version (h p)) pre
        = filter (\<lambda>p. \<not> Version (h p) <s Version (h x)) pre"
  proof (intro filter_cong refl)
    fix p assume "p \<in> set pre"
    with assms have "Version (h x) \<noteq> Version (h p)" by auto
    with sless_trichotomy [of "Version (h x)" "Version (h p)"]
    show "Version (h x) <s Version (h p) \<longleftrightarrow> \<not> Version (h p) <s Version (h x)"
      by (auto simp: sless_key)
  qed
  then show ?thesis by simp
qed

text \<open>The outer loop, after the indices below \<open>i\<close>: a panic when two of the first \<open>i\<close>
  elements share a version, and otherwise these elements in ascending order of version,
  followed by the untouched rest.\<close>

lemma insertion_outer:
  "i \<le> length ms \<Longrightarrow>
   (\<not> distinct (map (\<lambda>p. Version (h p)) (take i ms))
      \<and> (\<exists>v s1 s2. foldl (insertion_step h) (Inr ms) [1 ..< i] = Inl (DuplicateVersion v s1 s2)))
   \<or> (distinct (map (\<lambda>p. Version (h p)) (take i ms))
      \<and> (\<exists>pre. foldl (insertion_step h) (Inr ms) [1 ..< i] = Inr (pre @ drop i ms)
               \<and> length pre = i
               \<and> sorted_wrt (\<lambda>a b. Version (h a) <s Version (h b)) pre
               \<and> mset pre = mset (take i ms)))"
proof (induction i)
  case 0
  show ?case by simp
next
  case (Suc i)
  let ?V = "\<lambda>p. Version (h p)"
  let ?lt = "\<lambda>a b. ?V a <s ?V b"
  from Suc.prems have i: "i < length ms" by simp
  have tk: "take (Suc i) ms = take i ms @ [ms ! i]" using i by (simp add: take_Suc_conv_app_nth)
  have dr: "drop i ms = ms ! i # drop (Suc i) ms" using i by (simp add: Cons_nth_drop_Suc)
  show ?case
  proof (cases "i = 0")
    case True
    have "ms = [ms ! 0] @ drop (Suc 0) ms" using i True dr by (metis append_Cons append_Nil drop0)
    then have "\<exists>pre. Inr ms = (Inr (pre @ drop (Suc 0) ms) :: panic + Migrations)
                 \<and> length pre = Suc 0 \<and> sorted_wrt ?lt pre \<and> mset pre = mset (take (Suc 0) ms)"
      using tk True by (intro exI [of _ "[ms ! 0]"]) simp
    then show ?thesis using True tk by simp
  next
    case False
    then have upt: "[1 ..< Suc i] = [1 ..< i] @ [i]" by simp
    let ?r = "foldl (insertion_step h) (Inr ms) [1 ..< i]"
    have res: "foldl (insertion_step h) (Inr ms) [1 ..< Suc i] = insertion_step h ?r i"
      unfolding upt by simp
    from Suc.IH i consider
        (dup) v s1 s2 where "\<not> distinct (map ?V (take i ms))" "?r = Inl (DuplicateVersion v s1 s2)"
      | (ok) pre where "distinct (map ?V (take i ms))" "?r = Inr (pre @ drop i ms)"
          "length pre = i" "sorted_wrt ?lt pre" "mset pre = mset (take i ms)"
      by force
    then show ?thesis
    proof cases
      case dup
      have "\<not> distinct (map ?V (take (Suc i) ms))" using dup(1) tk by simp
      moreover have "insertion_step h ?r i = Inl (DuplicateVersion v s1 s2)"
        using dup(2) by (simp add: insertion_step_def)
      ultimately show ?thesis using res by simp
    next
      case ok
      have sets: "set pre = set (take i ms)" using ok(5) by (metis set_mset_mset)
      have run: "insertion_step h ?r i
                 = insertion_inner h (pre @ ms ! i # drop (Suc i) ms) (length pre)"
        using ok(2,3) dr by (simp add: insertion_step_def)
      from insertion_inner_result [OF ok(4), of "ms ! i" "drop (Suc i) ms"]
      show ?thesis
      proof (elim disjE conjE exE)
        fix s
        assume a: "?V (ms ! i) \<in> ?V ` set pre"
          and b: "insertion_inner h (pre @ ms ! i # drop (Suc i) ms) (length pre)
                  = Inl (DuplicateVersion (?V (ms ! i)) (Source (h (ms ! i))) s)"
        have "\<not> distinct (map ?V (take (Suc i) ms))" using a sets tk by auto
        then show ?thesis using res run b by simp
      next
        let ?pre' = "filter (\<lambda>p. ?V p <s ?V (ms ! i)) pre @ ms ! i #
                     filter (\<lambda>p. ?V (ms ! i) <s ?V p) pre"
        assume a: "?V (ms ! i) \<notin> ?V ` set pre"
          and b: "insertion_inner h (pre @ ms ! i # drop (Suc i) ms) (length pre)
                  = Inr (filter (\<lambda>p. ?V p <s ?V (ms ! i)) pre @ ms ! i #
                         filter (\<lambda>p. ?V (ms ! i) <s ?V p) pre @ drop (Suc i) ms)"
        have m: "mset ?pre' = mset (take (Suc i) ms)"
          using mset_insert_between [OF a] ok(5) tk by simp
        have l: "length ?pre' = Suc i"
          using m Suc.prems by (metis length_take min.absorb2 size_mset)
        have d: "distinct (map ?V (take (Suc i) ms))" using ok(1) a sets tk by auto
        have s: "sorted_wrt ?lt ?pre'" by (rule sorted_wrt_insert_between [OF ok(4)])
        have "foldl (insertion_step h) (Inr ms) [1 ..< Suc i] = Inr (?pre' @ drop (Suc i) ms)"
          using res run b by simp
        with m l d s show ?thesis by blast
      qed
    qed
  qed
qed

text \<open>\<open>sort.Sort\<close> on migrations: a panic of \<open>Less\<close> when two elements share a version,
  and otherwise the same elements in ascending order of version.\<close>

lemma sort_Sort_result:
  "(\<not> distinct (map (\<lambda>p. Version (h p)) ms)
      \<and> (\<exists>v s1 s2. sort_Sort h ms = Inl (DuplicateVersion v s1 s2)))
   \<or> (distinct (map (\<lambda>p. Version (h p)) ms)
      \<and> (\<exists>ms'. sort_Sort h ms = Inr ms'
               \<and> sorted_wrt (\<lambda>a b. Version (h a) <s Version (h b)) ms'
               \<and> mset ms' = mset ms))"
  using insertion_outer [of "length ms" ms h]
  by (auto simp: sort_Sort_def Migrations_Len_def)

section \<open>Duplicate versions\<close>

lemma AddNamedMigration_registers:
  "AddNamedMigration filename up down reg = Inr reg' \<Longrightarrow>
   \<exists>m. reg' (fst (NumericComponent filename)) = Some m \<and> Source m = filename"
  by (auto simp: AddNamedMigration_def Let_def split: option.splits)

text \<open>C5. Two migrations sharing a version end in a panic, not in a returned error.
  Registering a function under a version the registry already holds panics in
  \<open>AddNamedMigration\<close>; so does the second of two registrations whose filenames give the
  same version. Sorting a slice in which two migrations have equal versions panics in
  \<open>Migrations.Less\<close>, and with it both sequencing functions.\<close>

theorem duplicate_version_panics:
  "(reg (fst (NumericComponent filename)) = Some existing \<longrightarrow>
      AddNamedMigration filename up down reg = Inl (VersionConflict filename (Source existing)))
   \<and> (AddNamedMigration f1 up1 down1 reg = Inr reg1
        \<and> fst (NumericComponent f2) = fst (NumericComponent f1) \<longrightarrow>
      AddNamedMigration f2 up2 down2 reg1 = Inl (VersionConflict f2 f1))
   \<and> (\<not> distinct (map (\<lambda>p. Version (h p)) ms) \<longrightarrow>
      (\<exists>v s1 s2. sort_Sort h ms = Inl (DuplicateVersion v s1 s2)
                \<and> sortAndConnectMigrations h ms = Inl (DuplicateVersion v s1 s2)
                \<and> sortAndConnectAllMigrations h ms applied = Inl (DuplicateVersion v s1 s2)))"
proof (intro conjI impI)
  assume "reg (fst (NumericComponent filename)) = Some existing"
  then show "AddNamedMigration filename up down reg
             = Inl (VersionConflict filename (Source existing))"
    by (simp add: AddNamedMigration_def)
next
  assume a: "AddNamedMigration f1 up1 down1 reg = Inr reg1
             \<and> fst (NumericComponent f2) = fst (NumericComponent f1)"
  with AddNamedMigration_registers [of f1 up1 down1 reg reg1]
  obtain m where "reg1 (fst (NumericComponent f2)) = Some m" "Source m = f1" by auto
  then show "AddNamedMigration f2 up2 down2 reg1 = Inl (VersionConflict f2 f1)"
    by (simp add: AddNamedMigration_def)
next
  assume "\<not> distinct (map (\<lambda>p. Version (h p)) ms)"
  with sort_Sort_result [of h ms]
  obtain v s1 s2 where "sort_Sort h ms = Inl (DuplicateVersion v s1 s2)" by blast
  then show "\<exists>v s1 s2. sort_Sort h ms = Inl (DuplicateVersion v s1 s2)
                \<and> sortAndConnectMigrations h ms = Inl (DuplicateVersion v s1 s2)
                \<and> sortAndConnectAllMigrations h ms applied = Inl (DuplicateVersion v s1 s2)"
    by (simp add: sortAndConnectMigrations_def sortAndConnectAllMigrations_def)
qed

theorem duplicate_version_panics_witness:
  "(\<exists>reg1. AddNamedMigration ''db/00001_a.go'' None None Map.empty = Inr reg1
          \<and> AddNamedMigration ''db/1_b.go'' None None reg1
              = Inl (VersionConflict ''db/1_b.go'' ''db/00001_a.go''))
   \<and> \<not> distinct (map (\<lambda>p. Version (ex_dup_heap p)) [0, 1])
   \<and> (\<exists>v s1 s2. sort_Sort ex_dup_heap [0, 1] = Inl (DuplicateVersion v s1 s2)
              \<and> sortAndConnectMigrations ex_dup_heap [0, 1] = Inl (DuplicateVersion v s1 s2)
              \<and> sortAndConnectAllMigrations ex_dup_heap [0, 1] Map.empty
                  = Inl (DuplicateVersion v s1 s2))"
proof -
  have n1: "NumericComponent ''db/00001_a.go'' = (1, None)" by code_simp
  have n2: "NumericComponent ''db/1_b.go'' = (1, None)" by code_simp
  obtain reg1 where r: "AddNamedMigration ''db/00001_a.go'' None None Map.empty = Inr reg1"
    by (simp add: AddNamedMigration_def n1)
  have "AddNamedMigration ''db/1_b.go'' None None reg1
        = Inl (VersionConflict ''db/1_b.go'' ''db/00001_a.go'')"
    using duplicate_version_panics [of Map.empty "''x''" ex_go_migration None None
        "''db/00001_a.go''" None None reg1 "''db/1_b.go''" None None ex_dup_heap "[]" Map.empty]
      r n1 n2 by simp
  with r have 1: "\<exists>reg1. AddNamedMigration ''db/00001_a.go'' None None Map.empty = Inr reg1
          \<and> AddNamedMigration ''db/1_b.go'' None None reg1
              = Inl (VersionConflict ''db/1_b.go'' ''db/00001_a.go'')" by blast
  have d: "\<not> distinct (map (\<lambda>p. Version (ex_dup_heap p)) [0, 1])"
    by (simp add: ex_dup_heap_def ex_migration_def)
  from duplicate_version_panics [of Map.empty "''x''" ex_go_migration None None
        "''db/00001_a.go''" None None reg1 "''db/1_b.go''" None None ex_dup_heap "[0, 1]" Map.empty] d
  have 2: "\<exists>v s1 s2. sort_Sort ex_dup_heap [0, 1] = Inl (DuplicateVersion v s1 s2)
              \<and> sortAndConnectMigrations ex_dup_heap [0, 1] = Inl (DuplicateVersion v s1 s2)
              \<and> sortAndConnectAllMigrations ex_dup_heap [0, 1] Map.empty
                  = Inl (DuplicateVersion v s1 s2)"
    by blast
  from 1 d 2 show ?thesis by blast
qed

section \<open>Properties of the version extractor\<close>

lemma digit_range: "is_digit c \<Longrightarrow> 0 \<le> digit c \<and> digit c \<le> 9"
  by (simp add: is_digit_def digit_def)

lemma is_digit_not_special:
  "is_digit c \<Longrightarrow> c \<noteq> CHR ''_'' \<and> c \<noteq> CHR ''+'' \<and> c \<noteq> CHR ''-''"
  by (auto simp: is_digit_def)

lemma mod_wrap_once: "(m :: int) \<le> x \<Longrightarrow> x < 2 * m \<Longrightarrow> x mod m = x - m"
proof -
  assume a: "m \<le> x" "x < 2 * m"
  then have "(x - m) mod m = x - m" by (intro mod_pos_pos_trivial) simp_all
  moreover have "(x - m) mod m = x mod m" by simp
  ultimately show ?thesis by simp
qed

lemma foldl_digits_ge:
  "list_all is_digit ds \<Longrightarrow> 0 \<le> n \<Longrightarrow> n \<le> foldl (\<lambda>a c. a * 10 + digit c) n ds"
proof (induction ds arbitrary: n)
  case Nil
  show ?case by simp
next
  case (Cons c ds)
  then have d: "0 \<le> digit c" by (simp add: digit_range)
  have "n \<le> n * 10 + digit c" using Cons.prems(2) d by linarith
  moreover have "n * 10 + digit c \<le> foldl (\<lambda>a c. a * 10 + digit c) (n * 10 + digit c) ds"
    using Cons.prems d by (intro Cons.IH) auto
  ultimately show ?case by simp
qed

text \<open>On a digit string the loop computes the decimal value, or reports the range error
  with the largest unsigned value when the value exceeds it.\<close>

lemma ParseUint_loop_digits:
  "list_all is_digit cs \<Longrightarrow> 0 \<le> n \<Longrightarrow> n \<le> maxUint64 \<Longrightarrow>
   ParseUint_loop n cs =
     (if foldl (\<lambda>a c. a * 10 + digit c) n cs \<le> maxUint64
      then (foldl (\<lambda>a c. a * 10 + digit c) n cs, None)
      else (maxUint64, Some ErrRange))"
proof (induction cs arbitrary: n)
  case Nil
  then show ?case by simp
next
  case (Cons c cs)
  let ?f = "\<lambda>a c. a * 10 + digit c"
  from Cons.prems have c: "is_digit c" and cs: "list_all is_digit cs" by simp_all
  from c have d: "0 \<le> digit c" "digit c \<le> 9" by (simp_all add: digit_range)
  have ge: "n * 10 + digit c \<le> foldl ?f (n * 10 + digit c) cs"
    using cs d Cons.prems(2) by (intro foldl_digits_ge) auto
  show ?case
  proof (cases "n \<ge> maxUint64 div 10 + 1")
    case True
    then have "n * 10 + digit c > maxUint64" using d by (simp add: maxUint64_def)
    with ge have "\<not> foldl ?f (n * 10 + digit c) cs \<le> maxUint64" by linarith
    with True c show ?thesis by simp
  next
    case False
    then have small: "n * 10 < 2 ^ 64" "0 \<le> n * 10"
      using Cons.prems(2) by (simp_all add: maxUint64_def)
    then have n': "(n * 10) mod 2 ^ 64 = n * 10" by simp
    show ?thesis
    proof (cases "n * 10 + digit c < 2 ^ 64")
      case True
      then have n1: "(n * 10 + digit c) mod 2 ^ 64 = n * 10 + digit c"
        using small d by simp
      have le: "n * 10 + digit c \<le> maxUint64" using True by (simp add: maxUint64_def)
      have nonneg: "0 \<le> n * 10 + digit c" using small d by linarith
      have step: "ParseUint_loop n (c # cs) = ParseUint_loop (n * 10 + digit c) cs"
        using False c d le n' n1 by (simp add: Let_def)
      from Cons.IH [OF cs nonneg le] show ?thesis
        unfolding step by simp
    next
      case over: False
      have far: "\<not> foldl ?f (n * 10 + digit c) cs \<le> maxUint64"
        using ge over by (simp add: maxUint64_def)
      have "(n * 10 + digit c) mod 2 ^ 64 = n * 10 + digit c - 2 ^ 64"
        using small d over by (intro mod_wrap_once) simp_all
      moreover have "n * 10 + digit c - 2 ^ 64 < n * 10" using d by simp
      ultimately have wrap: "(n * 10 + digit c) mod 2 ^ 64 < n * 10" by simp
      have step: "ParseUint_loop n (c # cs) = (maxUint64, Some ErrRange)"
        using False c n' wrap by (simp add: Let_def)
      show ?thesis unfolding step using far by simp
    qed
  qed
qed

text \<open>Every error of the loop is a syntax error with value 0 or a range error with the
  largest unsigned value; a string with a byte that is no digit gives an error.\<close>

lemma ParseUint_loop_errors:
  "snd (ParseUint_loop n cs) = None
   \<or> ParseUint_loop n cs = (0, Some ErrSyntax)
   \<or> ParseUint_loop n cs = (maxUint64, Some ErrRange)"
  by (induction n cs rule: ParseUint_loop.induct) (auto simp: Let_def)

lemma ParseUint_loop_non_digit:
  "\<not> list_all is_digit cs \<Longrightarrow> snd (ParseUint_loop n cs) \<noteq> None"
  by (induction n cs rule: ParseUint_loop.induct) (auto simp: Let_def)

lemma dec_value_nonneg: "list_all is_digit ds \<Longrightarrow> 0 \<le> dec_value ds"
  using foldl_digits_ge [of ds 0] by (simp add: dec_value_def)

lemma ParseUint_digits:
  "ds \<noteq> [] \<Longrightarrow> list_all is_digit ds \<Longrightarrow>
   ParseUint ds = (if dec_value ds \<le> maxUint64 then (dec_value ds, None)
                   else (maxUint64, Some ErrRange))"
  using ParseUint_loop_digits [of ds 0]
  by (simp add: ParseUint_def dec_value_def maxUint64_def)

lemma ParseUint_errors:
  "snd (ParseUint s) = None \<or> ParseUint s = (0, Some ErrSyntax)
   \<or> ParseUint s = (maxUint64, Some ErrRange)"
  using ParseUint_loop_errors [of 0 s] by (simp add: ParseUint_def)

lemma ParseUint_non_digit:
  "\<not> list_all is_digit s \<Longrightarrow> snd (ParseUint s) \<noteq> None"
  using ParseUint_loop_non_digit [of s 0] by (simp add: ParseUint_def)

lemma sint_int64_of_int:
  "- (2 ^ 63) \<le> v \<Longrightarrow> v < 2 ^ 63 \<Longrightarrow> sint (word_of_int v :: int64) = v"
  by (simp add: sint_sbintrunc' signed_take_bit_int_eq_self)

text \<open>\<open>ParseInt\<close> against the literal it reads: the literal's value when it fits, an
  error otherwise.\<close>

lemma ParseInt_literal:
  "int64_literal s = Some v \<Longrightarrow> ParseInt s = (word_of_int v, None)"
proof -
  assume a: "int64_literal s = Some v"
  let ?sign = "s \<noteq> [] \<and> (hd s = CHR ''+'' \<or> hd s = CHR ''-'')"
  let ?ds = "if ?sign then tl s else s"
  let ?neg = "s \<noteq> [] \<and> hd s = CHR ''-''"
  from a have ds: "?ds \<noteq> []" "list_all is_digit ?ds"
    and v: "v = (if ?neg then - dec_value ?ds else dec_value ?ds)"
    and r: "- (2 ^ 63) \<le> v" "v < 2 ^ 63"
    by (auto simp: int64_literal_def Let_def split: if_splits)
  from ds have ne: "s \<noteq> []" by (auto split: if_splits)
  have nn: "0 \<le> dec_value ?ds" by (rule dec_value_nonneg [OF ds(2)])
  have fit: "dec_value ?ds \<le> maxUint64" using v r nn by (auto simp: maxUint64_def split: if_splits)
  have pu: "ParseUint ?ds = (dec_value ?ds, None)"
    using ParseUint_digits [OF ds] fit by simp
  have s': "(if hd s = CHR ''+'' \<or> hd s = CHR ''-'' then tl s else s) = ?ds" using ne by simp
  show ?thesis
  proof (cases "hd s = CHR ''-''")
    case True
    with v ne have "v = - dec_value ?ds" by simp
    with r have "\<not> dec_value ?ds > 2 ^ 63" by simp
    with True ne pu s' \<open>v = - dec_value ?ds\<close> show ?thesis
      by (simp add: ParseInt_def Let_def)
  next
    case False
    with v have "v = dec_value ?ds" by simp
    with r have "\<not> dec_value ?ds \<ge> 2 ^ 63" by simp
    with False ne pu s' \<open>v = dec_value ?ds\<close> show ?thesis
      by (simp add: ParseInt_def Let_def)
  qed
qed

lemma ParseInt_no_literal:
  "int64_literal s = None \<Longrightarrow> snd (ParseInt s) \<noteq> None"
proof (cases "s = []")
  case True
  then show ?thesis by (simp add: ParseInt_def)
next
  case ne: False
  assume a: "int64_literal s = None"
  let ?ds = "if hd s = CHR ''+'' \<or> hd s = CHR ''-'' then tl s else s"
  let ?neg = "hd s = CHR ''-''"
  obtain un err where pu: "ParseUint ?ds = (un, err)" by (cases "ParseUint ?ds")
  have shape: "ParseInt s =
      (if err \<noteq> None \<and> err \<noteq> Some ErrRange then (0, err)
       else if \<not> ?neg \<and> un \<ge> 2 ^ 63 then (9223372036854775807, Some ErrRange)
       else if ?neg \<and> un > 2 ^ 63 then (- 9223372036854775808, Some ErrRange)
       else (if ?neg then - (word_of_int un) else word_of_int un, None))"
    using ne pu by (simp add: ParseInt_def Let_def)
  from ParseUint_errors [of ?ds] pu consider
      (ok) "err = None" | (syn) "un = 0" "err = Some ErrSyntax"
    | (rng) "un = maxUint64" "err = Some ErrRange" by auto
  then show ?thesis
  proof cases
    case syn
    then show ?thesis unfolding shape by simp
  next
    case rng
    then show ?thesis unfolding shape by (simp add: maxUint64_def)
  next
    case ok
    have "snd (ParseUint ?ds) = None" using pu ok by simp
    with ParseUint_non_digit [of ?ds] have dig: "list_all is_digit ?ds" by blast
    from ok pu have dne: "?ds \<noteq> []" by (auto simp: ParseUint_def)
    from ParseUint_digits [OF dne dig] pu ok have un: "un = dec_value ?ds"
      by (auto split: if_splits)
    from a ne dne dig have "\<not> (- (2 ^ 63) \<le> (if ?neg then - dec_value ?ds else dec_value ?ds)
                              \<and> (if ?neg then - dec_value ?ds else dec_value ?ds) < 2 ^ 63)"
      by (auto simp: int64_literal_def Let_def split: if_splits)
    moreover have "0 \<le> dec_value ?ds" by (rule dec_value_nonneg [OF dig])
    ultimately have "(\<not> ?neg \<and> un \<ge> 2 ^ 63) \<or> (?neg \<and> un > 2 ^ 63)"
      using un by (auto split: if_splits)
    then show ?thesis unfolding shape using ok by auto
  qed
qed

text \<open>\<open>NumericComponent\<close> in terms of the text before the first underscore.\<close>

lemma NumericComponent_cases:
  "NumericComponent name =
     (if Ext (Base name) \<noteq> ''.go'' \<and> Ext (Base name) \<noteq> ''.sql''
      then (0, Some (New ''not a recognized migration file type''))
      else if CHR ''_'' \<notin> set (Base name) then (0, Some (New ''no separator found''))
      else if snd (ParseInt (takeWhile (\<lambda>c. c \<noteq> CHR ''_'') (Base name))) = None
              \<and> fst (ParseInt (takeWhile (\<lambda>c. c \<noteq> CHR ''_'') (Base name))) \<le>s 0
           then (0, Some (New ''migration IDs must be greater than zero''))
           else ParseInt (takeWhile (\<lambda>c. c \<noteq> CHR ''_'') (Base name)))"
proof -
  have "take (length (takeWhile (\<lambda>c. c \<noteq> CHR ''_'') (Base name))) (Base name)
        = takeWhile (\<lambda>c. c \<noteq> CHR ''_'') (Base name)"
    by (metis append_eq_conv_conj takeWhile_dropWhile_id)
  then show ?thesis
    by (simp add: NumericComponent_def Index_def Let_def split: prod.splits)
qed

lemma NumericComponent_success:
  "snd (NumericComponent name) = None \<longleftrightarrow>
     (Ext (Base name) = ''.go'' \<or> Ext (Base name) = ''.sql'')
     \<and> CHR ''_'' \<in> set (Base name)
     \<and> (\<exists>v. int64_literal (takeWhile (\<lambda>c. c \<noteq> CHR ''_'') (Base name)) = Some v \<and> 0 < v)"
proof -
  let ?pre = "takeWhile (\<lambda>c. c \<noteq> CHR ''_'') (Base name)"
  show ?thesis
  proof (cases "int64_literal ?pre")
    case None
    with ParseInt_no_literal [of ?pre] show ?thesis
      by (subst NumericComponent_cases) auto
  next
    case (Some v)
    then have r: "- (2 ^ 63) \<le> v" "v < 2 ^ 63"
      by (auto simp: int64_literal_def Let_def split: if_splits)
    have "word_of_int v \<le>s (0 :: int64) \<longleftrightarrow> v \<le> 0"
      using sint_int64_of_int [OF r] by (simp add: word_sle_eq)
    with ParseInt_literal [OF Some] Some show ?thesis
      by (subst NumericComponent_cases) auto
  qed
qed

lemma NumericComponent_value:
  "snd (NumericComponent name) = None \<Longrightarrow>
   int64_literal (takeWhile (\<lambda>c. c \<noteq> CHR ''_'') (Base name))
     = Some (sint (fst (NumericComponent name)))"
proof -
  let ?pre = "takeWhile (\<lambda>c. c \<noteq> CHR ''_'') (Base name)"
  assume ok: "snd (NumericComponent name) = None"
  then obtain v where v: "int64_literal ?pre = Some v"
    by (auto simp: NumericComponent_success)
  then have r: "- (2 ^ 63) \<le> v" "v < 2 ^ 63"
    by (auto simp: int64_literal_def Let_def split: if_splits)
  have "NumericComponent name = ParseInt ?pre"
    using ok by (subst (asm) NumericComponent_cases, subst NumericComponent_cases)
                (auto split: if_splits)
  with ParseInt_literal [OF v] sint_int64_of_int [OF r] v show ?thesis by simp
qed

lemma split_at_underscore:
  "CHR ''_'' \<in> set b \<Longrightarrow> \<exists>rest. b = takeWhile (\<lambda>c. c \<noteq> CHR ''_'') b @ CHR ''_'' # rest"
proof -
  assume a: "CHR ''_'' \<in> set b"
  let ?d = "dropWhile (\<lambda>c. c \<noteq> CHR ''_'') b"
  from a have ne: "?d \<noteq> []" by (auto simp: dropWhile_eq_Nil_conv)
  then have "hd ?d = CHR ''_''" using hd_dropWhile [of "\<lambda>c. c \<noteq> CHR ''_''" b] by blast
  with ne have "?d = CHR ''_'' # tl ?d" by (cases ?d) auto
  then have "b = takeWhile (\<lambda>c. c \<noteq> CHR ''_'') b @ CHR ''_'' # tl ?d"
    by (metis takeWhile_dropWhile_id)
  then show ?thesis by blast
qed

lemma split_at_digit_run:
  "length (digit_run b) < length b \<Longrightarrow> b ! length (digit_run b) = CHR ''_'' \<Longrightarrow>
   \<exists>rest. b = digit_run b @ CHR ''_'' # rest"
proof -
  assume a: "length (digit_run b) < length b" "b ! length (digit_run b) = CHR ''_''"
  have "b = digit_run b @ drop (length (digit_run b)) b"
    by (simp add: digit_run_def flip: dropWhile_eq_drop)
  moreover have "drop (length (digit_run b)) b = CHR ''_'' # drop (Suc (length (digit_run b))) b"
    using a by (metis Cons_nth_drop_Suc)
  ultimately show ?thesis by metis
qed

lemma digit_run_digits: "list_all is_digit (digit_run b)"
  by (auto simp: digit_run_def list_all_iff dest: set_takeWhileD)

lemma digit_run_before_underscore:
  "list_all is_digit p \<Longrightarrow> digit_run (p @ CHR ''_'' # rest) = p"
  by (simp add: digit_run_def list_all_iff takeWhile_append2 is_digit_def)

lemma leading_component_before_underscore:
  "list_all is_digit p \<Longrightarrow> takeWhile (\<lambda>c. c \<noteq> CHR ''_'') (p @ CHR ''_'' # rest) = p"
  using is_digit_not_special by (simp add: list_all_iff takeWhile_append2)

lemma int64_literal_digits:
  "ds \<noteq> [] \<Longrightarrow> list_all is_digit ds \<Longrightarrow>
   int64_literal ds = (if dec_value ds < 2 ^ 63 then Some (dec_value ds) else None)"
proof -
  assume a: "ds \<noteq> []" "list_all is_digit ds"
  then have "is_digit (hd ds)" by (cases ds) auto
  then have h: "hd ds \<noteq> CHR ''+''" "hd ds \<noteq> CHR ''-''" using is_digit_not_special by auto
  have "- (2 ^ 63) \<le> dec_value ds" using dec_value_nonneg [OF a(2)] by simp
  with a h show ?thesis by (simp add: int64_literal_def)
qed

lemma int64_literal_unsigned:
  assumes "s \<noteq> []" "hd s \<noteq> CHR ''+''" "hd s \<noteq> CHR ''-''" "int64_literal s = Some v"
  shows "list_all is_digit s \<and> v = dec_value s \<and> v < 2 ^ 63"
proof -
  from assms(1-3) have "int64_literal s =
      (if list_all is_digit s \<and> - (2 ^ 63) \<le> dec_value s \<and> dec_value s < 2 ^ 63
       then Some (dec_value s) else None)"
    by (simp add: int64_literal_def Let_def)
  with assms(4) show ?thesis by (simp split: if_splits)
qed

lemma leading_component_head:
  assumes "b \<noteq> []" "hd b \<noteq> CHR ''_''"
  shows "takeWhile (\<lambda>c. c \<noteq> CHR ''_'') b \<noteq> []"
    and "hd (takeWhile (\<lambda>c. c \<noteq> CHR ''_'') b) = hd b"
  using assms by (cases b, simp, simp)+

lemma digit_run_head: "digit_run b \<noteq> [] \<Longrightarrow> b \<noteq> [] \<and> is_digit (hd b)"
  by (cases b) (simp_all add: digit_run_def split: if_splits)

lemma NumericComponent_digit_run_only_if:
  assumes ok: "snd (NumericComponent name) = None"
    and val: "sint (fst (NumericComponent name)) = dec_value (digit_run (Base name))"
  shows "(Ext (Base name) = ''.sql'' \<or> Ext (Base name) = ''.go'')
         \<and> length (digit_run (Base name)) < length (Base name)
         \<and> Base name ! length (digit_run (Base name)) = CHR ''_''
         \<and> 0 < dec_value (digit_run (Base name))
         \<and> dec_value (digit_run (Base name)) < 2 ^ 63"
proof -
  let ?b = "Base name"
  let ?run = "digit_run ?b"
  let ?pre = "takeWhile (\<lambda>c. c \<noteq> CHR ''_'') ?b"
  from ok [unfolded NumericComponent_success]
  obtain v where ext: "Ext ?b = ''.go'' \<or> Ext ?b = ''.sql''"
    and us: "CHR ''_'' \<in> set ?b" and lit: "int64_literal ?pre = Some v" and pos: "0 < v"
    by blast
  from NumericComponent_value [OF ok] lit val have v: "v = dec_value ?run" by simp
  have "dec_value [] = 0" by (simp add: dec_value_def)
  with pos v have rne: "?run \<noteq> []" by auto
  from digit_run_head [OF rne] have bne: "?b \<noteq> []" and hd_digit: "is_digit (hd ?b)"
    by simp_all
  from is_digit_not_special [OF hd_digit]
  have nosign: "hd ?b \<noteq> CHR ''_''" "hd ?b \<noteq> CHR ''+''" "hd ?b \<noteq> CHR ''-''" by simp_all
  from leading_component_head [OF bne nosign(1)]
  have hdpre: "?pre \<noteq> []" "hd ?pre = hd ?b" by simp_all
  from int64_literal_unsigned [OF hdpre(1) _ _ lit] hdpre(2) nosign
  have dig: "list_all is_digit ?pre" and vpre: "v = dec_value ?pre" and rng: "v < 2 ^ 63"
    by simp_all
  from split_at_underscore [OF us] obtain rest where sp: "?b = ?pre @ CHR ''_'' # rest" by blast
  have "digit_run (?pre @ CHR ''_'' # rest) = ?pre"
    by (rule digit_run_before_underscore [OF dig])
  with sp have run: "?run = ?pre" by simp
  have "length ?pre < length (?pre @ CHR ''_'' # rest)" by simp
  with sp run have l: "length ?run < length ?b" by simp
  have "(?pre @ CHR ''_'' # rest) ! length ?pre = CHR ''_''" by (rule nth_append_length)
  with sp run have n: "?b ! length ?run = CHR ''_''" by simp
  from ext l n pos v rng show ?thesis by blast
qed

lemma NumericComponent_digit_run_if:
  assumes ext: "Ext (Base name) = ''.sql'' \<or> Ext (Base name) = ''.go''"
    and l: "length (digit_run (Base name)) < length (Base name)"
    and n: "Base name ! length (digit_run (Base name)) = CHR ''_''"
    and pos: "0 < dec_value (digit_run (Base name))"
    and rng: "dec_value (digit_run (Base name)) < 2 ^ 63"
  shows "snd (NumericComponent name) = None
         \<and> sint (fst (NumericComponent name)) = dec_value (digit_run (Base name))"
proof -
  let ?b = "Base name"
  let ?run = "digit_run ?b"
  let ?pre = "takeWhile (\<lambda>c. c \<noteq> CHR ''_'') ?b"
  from split_at_digit_run [OF l n] obtain rest where sp: "?b = ?run @ CHR ''_'' # rest" by blast
  have dig: "list_all is_digit ?run" by (rule digit_run_digits)
  have "dec_value [] = 0" by (simp add: dec_value_def)
  with pos have rne: "?run \<noteq> []" by auto
  have "takeWhile (\<lambda>c. c \<noteq> CHR ''_'') (?run @ CHR ''_'' # rest) = ?run"
    by (rule leading_component_before_underscore [OF dig])
  with sp have pre: "?pre = ?run" by simp
  have "CHR ''_'' \<in> set (?run @ CHR ''_'' # rest)" by simp
  with sp have us: "CHR ''_'' \<in> set ?b" by simp
  have lit: "int64_literal ?pre = Some (dec_value ?run)"
    using int64_literal_digits [OF rne dig] rng pre by simp
  have ok: "snd (NumericComponent name) = None"
    unfolding NumericComponent_success using ext us lit pos by blast
  from NumericComponent_value [OF ok] lit have "sint (fst (NumericComponent name)) = dec_value ?run"
    by simp
  with ok show ?thesis by simp
qed


lemma int64_literal_nonempty: "int64_literal s = Some v \<Longrightarrow> s \<noteq> []"
  by (auto simp: int64_literal_def Let_def split: if_splits)

lemma int64_literal_minus:
  assumes "s \<noteq> []" "hd s = CHR ''-''" "int64_literal s = Some v"
  shows "v \<le> 0"
proof -
  from assms have "list_all is_digit (tl s)" and "v = - dec_value (tl s)"
    by (auto simp: int64_literal_def Let_def split: if_splits)
  with dec_value_nonneg [of "tl s"] show ?thesis by simp
qed

text \<open>An accepted name whose base name does not begin with a plus sign: the value
  returned is that of the leading digit run, which the underscore follows.\<close>

lemma NumericComponent_unsigned:
  assumes ok: "snd (NumericComponent name) = None"
    and noplus: "hd (Base name) \<noteq> CHR ''+''"
  shows "sint (fst (NumericComponent name)) = dec_value (digit_run (Base name))"
proof -
  let ?b = "Base name"
  let ?pre = "takeWhile (\<lambda>c. c \<noteq> CHR ''_'') ?b"
  from ok [unfolded NumericComponent_success]
  obtain v where us: "CHR ''_'' \<in> set ?b" and lit: "int64_literal ?pre = Some v"
    and pos: "0 < v"
    by blast
  from int64_literal_nonempty [OF lit] have pne: "?pre \<noteq> []" .
  then have bne: "?b \<noteq> []" by auto
  from pne bne have hdb: "hd ?b \<noteq> CHR ''_''" by (cases ?b) (auto split: if_splits)
  from leading_component_head [OF bne hdb] have hdpre: "hd ?pre = hd ?b" by simp
  have nominus: "hd ?pre \<noteq> CHR ''-''"
    using int64_literal_minus [OF pne _ lit] pos by auto
  from int64_literal_unsigned [OF pne _ nominus lit] hdpre noplus
  have dig: "list_all is_digit ?pre" and vpre: "v = dec_value ?pre" by simp_all
  from split_at_underscore [OF us] obtain rest where sp: "?b = ?pre @ CHR ''_'' # rest" by blast
  have "digit_run (?pre @ CHR ''_'' # rest) = ?pre"
    by (rule digit_run_before_underscore [OF dig])
  with sp have run: "digit_run ?b = ?pre" by simp
  from NumericComponent_value [OF ok] lit have "sint (fst (NumericComponent name)) = v" by simp
  with vpre run show ?thesis by simp
qed

text \<open>C7, as stated, fails: the name \<open>+12_x.sql\<close> has a recognized extension, an
  underscore and a leading component that \<open>ParseInt\<close> reads as \<open>12 > 0\<close>, so it is
  accepted with version 12; its leading digit run is empty, so what is returned is not
  the leading digit run, and no error is returned either.\<close>

theorem NumericComponent_signed_counterexample:
  "NumericComponent ''+12_x.sql'' = (12, None)
   \<and> Ext (Base ''+12_x.sql'') = ''.sql''
   \<and> CHR ''_'' \<in> set (Base ''+12_x.sql'')
   \<and> ParseInt (takeWhile (\<lambda>c. c \<noteq> CHR ''_'') (Base ''+12_x.sql'')) = (12, None)
   \<and> digit_run (Base ''+12_x.sql'') = []
   \<and> dec_value (digit_run (Base ''+12_x.sql'')) \<noteq> sint (12 :: int64)"
  by code_simp

text \<open>C7, amended. For every name, \<open>NumericComponent\<close> returns the integer that the text
  of the base name before the first underscore denotes as an optionally signed decimal
  literal, exactly when the extension of the base name is \<open>.sql\<close> or \<open>.go\<close>, an
  underscore is present, that text is the literal of a 64-bit integer, and the integer is
  strictly greater than 0. It returns an error exactly when the extension is not
  recognized, no underscore is found, that text is not the literal of a 64-bit integer,
  or the integer is at most 0. An accepted name that does not begin with a plus sign
  returns the value of its leading digit run; and the value of the leading digit run is
  returned exactly when the extension is recognized, the underscore follows the digit
  run, and the value of the run is greater than 0 and fits a signed 64-bit integer.\<close>

theorem NumericComponent_contract:
  "(NumericComponent name = (w, None)
    \<longleftrightarrow> (Ext (Base name) = ''.sql'' \<or> Ext (Base name) = ''.go'')
         \<and> CHR ''_'' \<in> set (Base name)
         \<and> int64_literal (takeWhile (\<lambda>c. c \<noteq> CHR ''_'') (Base name)) = Some (sint w)
         \<and> 0 < sint w)
   \<and> (snd (NumericComponent name) \<noteq> None
    \<longleftrightarrow> (Ext (Base name) \<noteq> ''.sql'' \<and> Ext (Base name) \<noteq> ''.go'')
         \<or> CHR ''_'' \<notin> set (Base name)
         \<or> (case int64_literal (takeWhile (\<lambda>c. c \<noteq> CHR ''_'') (Base name)) of
               None \<Rightarrow> True | Some v \<Rightarrow> v \<le> 0))
   \<and> (snd (NumericComponent name) = None \<and> hd (Base name) \<noteq> CHR ''+'' \<longrightarrow>
        sint (fst (NumericComponent name)) = dec_value (digit_run (Base name)))
   \<and> ((snd (NumericComponent name) = None
        \<and> sint (fst (NumericComponent name)) = dec_value (digit_run (Base name)))
    \<longleftrightarrow> (Ext (Base name) = ''.sql'' \<or> Ext (Base name) = ''.go'')
         \<and> length (digit_run (Base name)) < length (Base name)
         \<and> Base name ! length (digit_run (Base name)) = CHR ''_''
         \<and> 0 < dec_value (digit_run (Base name))
         \<and> dec_value (digit_run (Base name)) < 2 ^ 63)"
proof -
  let ?pre = "takeWhile (\<lambda>c. c \<noteq> CHR ''_'') (Base name)"
  have 1: "NumericComponent name = (w, None)
    \<longleftrightarrow> (Ext (Base name) = ''.sql'' \<or> Ext (Base name) = ''.go'')
         \<and> CHR ''_'' \<in> set (Base name)
         \<and> int64_literal ?pre = Some (sint w) \<and> 0 < sint w"
  proof
    assume a: "NumericComponent name = (w, None)"
    then have ok: "snd (NumericComponent name) = None" by simp
    from NumericComponent_value [OF ok] a have lit: "int64_literal ?pre = Some (sint w)" by simp
    from ok [unfolded NumericComponent_success] lit
    show "(Ext (Base name) = ''.sql'' \<or> Ext (Base name) = ''.go'')
         \<and> CHR ''_'' \<in> set (Base name)
         \<and> int64_literal ?pre = Some (sint w) \<and> 0 < sint w"
      by auto
  next
    assume a: "(Ext (Base name) = ''.sql'' \<or> Ext (Base name) = ''.go'')
         \<and> CHR ''_'' \<in> set (Base name)
         \<and> int64_literal ?pre = Some (sint w) \<and> 0 < sint w"
    then have ok: "snd (NumericComponent name) = None"
      unfolding NumericComponent_success by blast
    from NumericComponent_value [OF ok] a
    have "sint (fst (NumericComponent name)) = sint w" by simp
    then have "fst (NumericComponent name) = w" by (simp add: sint_key_eq)
    with ok show "NumericComponent name = (w, None)" by (simp add: prod_eq_iff)
  qed
  have 2: "snd (NumericComponent name) \<noteq> None
    \<longleftrightarrow> (Ext (Base name) \<noteq> ''.sql'' \<and> Ext (Base name) \<noteq> ''.go'')
         \<or> CHR ''_'' \<notin> set (Base name)
         \<or> (case int64_literal ?pre of None \<Rightarrow> True | Some v \<Rightarrow> v \<le> 0)"
    unfolding NumericComponent_success by (cases "int64_literal ?pre") auto
  have 3: "snd (NumericComponent name) = None \<and> hd (Base name) \<noteq> CHR ''+'' \<longrightarrow>
        sint (fst (NumericComponent name)) = dec_value (digit_run (Base name))"
    using NumericComponent_unsigned [of name] by blast
  have 4: "(snd (NumericComponent name) = None
        \<and> sint (fst (NumericComponent name)) = dec_value (digit_run (Base name)))
    \<longleftrightarrow> (Ext (Base name) = ''.sql'' \<or> Ext (Base name) = ''.go'')
         \<and> length (digit_run (Base name)) < length (Base name)
         \<and> Base name ! length (digit_run (Base name)) = CHR ''_''
         \<and> 0 < dec_value (digit_run (Base name))
         \<and> dec_value (digit_run (Base name)) < 2 ^ 63"
    using NumericComponent_digit_run_only_if [of name] NumericComponent_digit_run_if [of name]
    by blast
  from 1 2 3 4 show ?thesis by blast
qed

theorem NumericComponent_contract_witness:
  "NumericComponent ''db/00012_add_users.sql'' = (12, None)
   \<and> sint (fst (NumericComponent ''db/00012_add_users.sql''))
       = dec_value (digit_run ''00012_add_users.sql'')
   \<and> snd (NumericComponent ''db/notes.txt'') \<noteq> None
   \<and> snd (NumericComponent ''db/0_zero.sql'') \<noteq> None"
proof -
  have b: "Base ''db/00012_add_users.sql'' = ''00012_add_users.sql''" by code_simp
  have e: "Ext ''00012_add_users.sql'' = ''.sql''" by code_simp
  have l: "int64_literal ''00012'' = Some 12" by code_simp
  have s: "sint (12 :: int64) = 12" by simp
  note c = NumericComponent_contract [of "''db/00012_add_users.sql''" 12]
  from c [THEN conjunct1]
  have 1: "NumericComponent ''db/00012_add_users.sql'' = (12, None)"
    by (simp add: b e l)
  then have ok: "snd (NumericComponent ''db/00012_add_users.sql'') = None" by simp
  have h: "hd (Base ''db/00012_add_users.sql'') \<noteq> CHR ''+''" by (simp add: b)
  from c [THEN conjunct2, THEN conjunct2, THEN conjunct1] ok h
  have 2: "sint (fst (NumericComponent ''db/00012_add_users.sql''))
           = dec_value (digit_run ''00012_add_users.sql'')"
    by (simp add: b)
  have b2: "Base ''db/notes.txt'' = ''notes.txt''" by code_simp
  have e2: "Ext ''notes.txt'' = ''.txt''" by code_simp
  from NumericComponent_contract [of "''db/notes.txt''" 0, THEN conjunct2, THEN conjunct1]
  have 3: "snd (NumericComponent ''db/notes.txt'') \<noteq> None" by (simp add: b2 e2)
  have b3: "Base ''db/0_zero.sql'' = ''0_zero.sql''" by code_simp
  have l3: "int64_literal ''0'' = Some 0" by code_simp
  from NumericComponent_contract [of "''db/0_zero.sql''" 0, THEN conjunct2, THEN conjunct1]
  have 4: "snd (NumericComponent ''db/0_zero.sql'') \<noteq> None" by (simp add: b3 l3)
  from 1 2 3 4 show ?thesis by simp
qed

section \<open>Registration of unparsable names\<close>

lemma ParseInt_errors:
  "snd (ParseInt s) = None \<or> ParseInt s = (0, Some ErrSyntax)
   \<or> ParseInt s = (9223372036854775807, Some ErrRange)
   \<or> ParseInt s = (- 9223372036854775808, Some ErrRange)"
proof (cases "s = []")
  case True
  then show ?thesis by (simp add: ParseInt_def)
next
  case False
  let ?ds = "if hd s = CHR ''+'' \<or> hd s = CHR ''-'' then tl s else s"
  obtain un err where pu: "ParseUint ?ds = (un, err)" by (cases "ParseUint ?ds")
  have shape: "ParseInt s =
      (if err \<noteq> None \<and> err \<noteq> Some ErrRange then (0, err)
       else if \<not> hd s = CHR ''-'' \<and> un \<ge> 2 ^ 63 then (9223372036854775807, Some ErrRange)
       else if hd s = CHR ''-'' \<and> un > 2 ^ 63 then (- 9223372036854775808, Some ErrRange)
       else (if hd s = CHR ''-'' then - (word_of_int un) else word_of_int un, None))"
    using False pu by (simp add: ParseInt_def Let_def)
  from ParseUint_errors [of ?ds] pu consider
      (ok) "err = None" | (syn) "un = 0" "err = Some ErrSyntax"
    | (rng) "un = maxUint64" "err = Some ErrRange" by auto
  then show ?thesis
  proof cases
    case ok
    then show ?thesis unfolding shape by simp
  next
    case syn
    then show ?thesis unfolding shape by simp
  next
    case rng
    then show ?thesis unfolding shape by (simp add: maxUint64_def)
  qed
qed

text \<open>The value \<open>NumericComponent\<close> returns beside an error: 0, except for a range error
  of \<open>ParseInt\<close>, which comes with the largest value of the literal's sign.\<close>

lemma NumericComponent_error_value:
  "snd (NumericComponent filename) \<noteq> None \<Longrightarrow>
   (snd (NumericComponent filename) \<noteq> Some ErrRange \<longrightarrow> fst (NumericComponent filename) = 0)
   \<and> (snd (NumericComponent filename) = Some ErrRange \<longrightarrow>
        fst (NumericComponent filename) = 9223372036854775807
        \<or> fst (NumericComponent filename) = - 9223372036854775808)"
  using ParseInt_errors [of "takeWhile (\<lambda>c. c \<noteq> CHR ''_'') (Base filename)"]
  by (subst (asm) NumericComponent_cases, (subst NumericComponent_cases)+)
     (auto split: if_splits)

text \<open>C10, as stated, fails: a name whose leading component overflows 64 bits is
  registered under version \<open>9223372036854775807\<close>, not under version 0, and registering
  it after another unparsable name does not panic.\<close>

theorem AddNamedMigration_overflow_counterexample:
  "NumericComponent ''99999999999999999999_x.go'' = (9223372036854775807, Some ErrRange)
   \<and> (case AddNamedMigration ''99999999999999999999_x.go'' None None Map.empty of
         Inl p \<Rightarrow> False
       | Inr reg \<Rightarrow> reg 0 = None \<and> reg 9223372036854775807 \<noteq> None)
   \<and> snd (NumericComponent ''helpers.go'') \<noteq> None
   \<and> (case AddNamedMigration ''helpers.go'' None None Map.empty of
         Inl p \<Rightarrow> False
       | Inr reg \<Rightarrow>
           (case AddNamedMigration ''99999999999999999999_x.go'' None None reg of
              Inl p \<Rightarrow> False
            | Inr reg' \<Rightarrow> reg' 0 \<noteq> None \<and> reg' 9223372036854775807 \<noteq> None))"
proof -
  have 1: "NumericComponent ''99999999999999999999_x.go'' = (9223372036854775807, Some ErrRange)"
    by code_simp
  have 2: "NumericComponent ''helpers.go'' = (0, Some (New ''no separator found''))"
    by code_simp
  show ?thesis by (simp add: AddNamedMigration_def 1 2)
qed

text \<open>C10, amended. \<open>AddNamedMigration\<close> never reports a version-extraction failure: a
  filename whose version cannot be extracted is registered under the value
  \<open>NumericComponent\<close> returns beside its error, which is 0 unless the error is the range
  error of an overflowing leading component, then \<open>9223372036854775807\<close> or
  \<open>-9223372036854775808\<close>; a later registration of an unparsable filename with the same
  value panics as a duplicate. In particular two unparsable filenames without range
  error collide on version 0.\<close>

theorem AddNamedMigration_unparsable:
  "snd (NumericComponent filename) \<noteq> None \<longrightarrow>
     (snd (NumericComponent filename) \<noteq> Some ErrRange \<longrightarrow> fst (NumericComponent filename) = 0)
     \<and> (snd (NumericComponent filename) = Some ErrRange \<longrightarrow>
          fst (NumericComponent filename) = 9223372036854775807
          \<or> fst (NumericComponent filename) = - 9223372036854775808)
     \<and> (reg (fst (NumericComponent filename)) = None \<longrightarrow>
          AddNamedMigration filename up down reg =
            Inr (reg(fst (NumericComponent filename) \<mapsto>
                   \<lparr>Version = fst (NumericComponent filename), Next = - 1, Previous = - 1,
                    Source = filename, Registered = True, Applied = False,
                    UpFn = up, DownFn = down\<rparr>)))
     \<and> (\<forall>reg1 f2 up2 down2.
          AddNamedMigration filename up down reg = Inr reg1
          \<and> snd (NumericComponent f2) \<noteq> None
          \<and> (fst (NumericComponent f2) = fst (NumericComponent filename)
              \<or> snd (NumericComponent filename) \<noteq> Some ErrRange
                 \<and> snd (NumericComponent f2) \<noteq> Some ErrRange) \<longrightarrow>
          AddNamedMigration f2 up2 down2 reg1 = Inl (VersionConflict f2 filename))"
proof (rule impI, intro conjI)
  assume e: "snd (NumericComponent filename) \<noteq> None"
  from NumericComponent_error_value [OF e]
  show "snd (NumericComponent filename) \<noteq> Some ErrRange \<longrightarrow> fst (NumericComponent filename) = 0"
    by blast
  from NumericComponent_error_value [OF e]
  show "snd (NumericComponent filename) = Some ErrRange \<longrightarrow>
        fst (NumericComponent filename) = 9223372036854775807
        \<or> fst (NumericComponent filename) = - 9223372036854775808"
    by blast
  show "reg (fst (NumericComponent filename)) = None \<longrightarrow>
        AddNamedMigration filename up down reg =
            Inr (reg(fst (NumericComponent filename) \<mapsto>
                   \<lparr>Version = fst (NumericComponent filename), Next = - 1, Previous = - 1,
                    Source = filename, Registered = True, Applied = False,
                    UpFn = up, DownFn = down\<rparr>))"
    by (simp add: AddNamedMigration_def Let_def)
  show "\<forall>reg1 f2 up2 down2.
          AddNamedMigration filename up down reg = Inr reg1
          \<and> snd (NumericComponent f2) \<noteq> None
          \<and> (fst (NumericComponent f2) = fst (NumericComponent filename)
              \<or> snd (NumericComponent filename) \<noteq> Some ErrRange
                 \<and> snd (NumericComponent f2) \<noteq> Some ErrRange) \<longrightarrow>
          AddNamedMigration f2 up2 down2 reg1 = Inl (VersionConflict f2 filename)"
  proof (intro allI impI)
    fix reg1 f2 up2 down2
    assume a: "AddNamedMigration filename up down reg = Inr reg1
          \<and> snd (NumericComponent f2) \<noteq> None
          \<and> (fst (NumericComponent f2) = fst (NumericComponent filename)
              \<or> snd (NumericComponent filename) \<noteq> Some ErrRange
                 \<and> snd (NumericComponent f2) \<noteq> Some ErrRange)"
    then have e2: "snd (NumericComponent f2) \<noteq> None" by blast
    from a NumericComponent_error_value [OF e] NumericComponent_error_value [OF e2]
    have same: "fst (NumericComponent f2) = fst (NumericComponent filename)" by auto
    from a AddNamedMigration_registers [of filename up down reg reg1]
    obtain m where "reg1 (fst (NumericComponent filename)) = Some m" "Source m = filename" by auto
    with same show "AddNamedMigration f2 up2 down2 reg1 = Inl (VersionConflict f2 filename)"
      by (simp add: AddNamedMigration_def)
  qed
qed

theorem AddNamedMigration_unparsable_witness:
  "snd (NumericComponent ''helpers.go'') \<noteq> None
   \<and> snd (NumericComponent ''db/util.go'') \<noteq> None
   \<and> (\<exists>reg1. AddNamedMigration ''helpers.go'' None None Map.empty = Inr reg1
             \<and> reg1 0 \<noteq> None
             \<and> AddNamedMigration ''db/util.go'' None None reg1
                 = Inl (VersionConflict ''db/util.go'' ''helpers.go''))"
proof -
  have 1: "NumericComponent ''helpers.go'' = (0, Some (New ''no separator found''))"
    by code_simp
  have 2: "NumericComponent ''db/util.go'' = (0, Some (New ''no separator found''))"
    by code_simp
  have e: "snd (NumericComponent ''helpers.go'') \<noteq> None"
          "snd (NumericComponent ''db/util.go'') \<noteq> None"
    by (simp_all add: 1 2)
  have n: "Map.empty (fst (NumericComponent ''helpers.go'')) = (None :: Migration option)" by simp
  let ?reg1 = "Map.empty(fst (NumericComponent ''helpers.go'') \<mapsto>
                   \<lparr>Version = fst (NumericComponent ''helpers.go''), Next = - 1, Previous = - 1,
                    Source = ''helpers.go'', Registered = True, Applied = False,
                    UpFn = None, DownFn = None\<rparr>)"
  note inst = AddNamedMigration_unparsable [of "''helpers.go''" Map.empty None None, rule_format, OF e(1)]
  from inst n have r: "AddNamedMigration ''helpers.go'' None None Map.empty = Inr ?reg1"
    by blast
  have ne: "snd (NumericComponent ''helpers.go'') \<noteq> Some ErrRange
            \<and> snd (NumericComponent ''db/util.go'') \<noteq> Some ErrRange"
    by (simp add: 1 2)
  from inst r e(2) ne
  have p: "AddNamedMigration ''db/util.go'' None None ?reg1
           = Inl (VersionConflict ''db/util.go'' ''helpers.go'')"
    by blast
  have "?reg1 0 \<noteq> None" by (simp add: 1)
  with e r p show ?thesis by blast
qed

end
